theory Spec2Isabelle
  imports Main "HOL-Library.Sublist"
begin

section \<open>Strings\<close>

text \<open>
  A JavaScript string is a sequence of UTF-16 code units and \<open>length\<close>, \<open>slice\<close> and
  \<open>substring\<close> count code units. The embedding writes a string as a \<^typ>\<open>string\<close>, one
  \<^typ>\<open>char\<close> per code unit, which covers the code units \<open>0x00\<close> to \<open>0xFF\<close>. The one
  character of the source outside this range, the horizontal ellipsis \<open>U+2026\<close> that
  \<open>summarize\<close> and \<open>summarizeTemplate\<close> append, is written as the three bytes of its UTF-8
  encoding; no length is ever taken of a string that holds it.
\<close>

definition isSpace :: "char \<Rightarrow> bool" where
  \<comment> \<open>\<open>WhiteSpace\<close> and \<open>LineTerminator\<close> of ECMAScript below \<open>0x100\<close>: what \<open>trim\<close> strips and
      what \<open>\s\<close> matches.\<close>
  "isSpace c \<longleftrightarrow> c \<in> set [CHR 0x09, CHR 0x0A, CHR 0x0B, CHR 0x0C, CHR 0x0D, CHR 0x20, CHR 0xA0]"

definition isLineTerminator :: "char \<Rightarrow> bool" where
  "isLineTerminator c \<longleftrightarrow> c = CHR 0x0A \<or> c = CHR 0x0D"

definition trimStart :: "string \<Rightarrow> string" where
  "trimStart s = dropWhile isSpace s"

definition trimEnd :: "string \<Rightarrow> string" where
  "trimEnd s = rev (dropWhile isSpace (rev s))"

definition trim :: "string \<Rightarrow> string" where
  "trim s = trimEnd (trimStart s)"

fun join :: "string \<Rightarrow> string list \<Rightarrow> string" where
  "join sep [] = []"
| "join sep [x] = x"
| "join sep (x # y # ys) = x @ sep @ join sep (y # ys)"

definition ellipsis :: string where
  "ellipsis = [CHR 0xE2, CHR 0x80, CHR 0xA6]"

definition toLowerChar :: "char \<Rightarrow> char" where
  \<comment> \<open>\<open>toLowerCase\<close> on one code unit below \<open>0x100\<close>: \<open>A\<close>-\<open>Z\<close> and \<open>0xC0\<close>-\<open>0xDE\<close> without \<open>0xD7\<close>\<close>
  "toLowerChar c =
     (let n = (of_char c :: nat)
      in if (65 \<le> n \<and> n \<le> 90) \<or> (192 \<le> n \<and> n \<le> 222 \<and> n \<noteq> 215) then char_of (n + 32) else c)"

definition toLowerCase :: "string \<Rightarrow> string" where
  "toLowerCase s = map toLowerChar s"

definition canonicalize :: "char \<Rightarrow> char" where
  \<comment> \<open>\<open>Canonicalize\<close> of ECMAScript for a pattern with the \<open>i\<close> flag and without the \<open>u\<close> flag:
      the upper-case counterpart where it is a single code unit. The two code units below
      \<open>0x100\<close> whose counterpart lies above (\<open>0xB5\<close> and \<open>0xFF\<close>) stand for themselves, which
      keeps the classes of equal canonical form as they are.\<close>
  "canonicalize c =
     (let n = (of_char c :: nat)
      in if (97 \<le> n \<and> n \<le> 122) \<or> (224 \<le> n \<and> n \<le> 254 \<and> n \<noteq> 247) then char_of (n - 32) else c)"

definition isWordChar :: "char \<Rightarrow> bool" where
  \<comment> \<open>\<open>\w\<close>\<close>
  "isWordChar c =
     (let n = (of_char c :: nat)
      in (48 \<le> n \<and> n \<le> 57) \<or> (65 \<le> n \<and> n \<le> 90) \<or> n = 95 \<or> (97 \<le> n \<and> n \<le> 122))"

fun digitChar :: "nat \<Rightarrow> char" where
  "digitChar n = char_of (48 + n)"

fun showNat :: "nat \<Rightarrow> string" where
  \<comment> \<open>a non-negative integer in a template literal: its decimal digits\<close>
  "showNat n = (if n < 10 then [digitChar n] else showNat (n div 10) @ [digitChar (n mod 10)])"

declare showNat.simps [simp del]

definition lastIndexOf :: "string \<Rightarrow> string \<Rightarrow> int" where
  \<comment> \<open>\<open>String.prototype.lastIndexOf\<close>: the greatest index where \<open>sub\<close> starts, or \<open>-1\<close>\<close>
  "lastIndexOf s sub =
     (case filter (\<lambda>i. take (length sub) (drop i s) = sub) (rev [0..<Suc (length s)]) of
        [] \<Rightarrow> - 1
      | i # _ \<Rightarrow> int i)"

section \<open>Regular expressions\<close>

text \<open>
  The source's regular expressions run on the backtracking matcher of ECMAScript
  (ECMA-262, 22.2.2). The embedding follows that definition: a pattern is a syntax tree, its
  meaning a matcher that takes the state reached so far and a continuation for the rest of
  the pattern. A state holds the character before the current position (for \<open>^\<close> and
  \<open>\b\<close>), the input still to be read, and the captures.
\<close>

datatype regex =
    Empty
  | Chr char
  | Class "char \<Rightarrow> bool"
  | Dot
  | Seq regex regex
  | Alt regex regex
  | Rep nat "nat option" bool regex
  | Group nat regex
  | BOL
  | EOL
  | WordB
  | NotAhead regex

text \<open>
  \<open>Rep min max greedy r\<close> is \<open>r{min,max}\<close> (\<open>max = None\<close> for no upper bound), lazy when
  \<open>greedy\<close> is false; \<open>Group n r\<close> is the \<open>n\<close>-th capturing group; \<open>BOL\<close>, \<open>EOL\<close> and
  \<open>WordB\<close> are \<open>^\<close>, \<open>$\<close> and \<open>\b\<close>; \<open>NotAhead r\<close> is \<open>(?!r)\<close>. A non-capturing group
  is its body.
\<close>

record flags =
  ignoreCase :: bool
  multiline :: bool

record mstate =
  prev :: "char option"
  rest :: string
  caps :: "nat \<Rightarrow> string option"

type_synonym cont = "mstate \<Rightarrow> mstate option"
type_synonym matcher = "mstate \<Rightarrow> cont \<Rightarrow> mstate option"

primrec groupsOf :: "regex \<Rightarrow> nat list" where
  "groupsOf Empty = []"
| "groupsOf (Chr a) = []"
| "groupsOf (Class P) = []"
| "groupsOf Dot = []"
| "groupsOf (Seq r1 r2) = groupsOf r1 @ groupsOf r2"
| "groupsOf (Alt r1 r2) = groupsOf r1 @ groupsOf r2"
| "groupsOf (Rep mn mx greedy r) = groupsOf r"
| "groupsOf (Group n r) = n # groupsOf r"
| "groupsOf BOL = []"
| "groupsOf EOL = []"
| "groupsOf WordB = []"
| "groupsOf (NotAhead r) = groupsOf r"

definition clearCaps :: "nat list \<Rightarrow> mstate \<Rightarrow> mstate" where
  "clearCaps gs x = x\<lparr>caps := (\<lambda>k. if k \<in> set gs then None else caps x k)\<rparr>"

definition charMatcher :: "(char \<Rightarrow> bool) \<Rightarrow> matcher" where
  "charMatcher P x c =
     (case rest x of
        [] \<Rightarrow> None
      | ch # cs \<Rightarrow> if P ch then c (x\<lparr>prev := Some ch, rest := cs\<rparr>) else None)"

definition chrEq :: "bool \<Rightarrow> char \<Rightarrow> char \<Rightarrow> bool" where
  "chrEq ic a ch = (if ic then canonicalize a = canonicalize ch else a = ch)"

definition classHas :: "bool \<Rightarrow> (char \<Rightarrow> bool) \<Rightarrow> char \<Rightarrow> bool" where
  \<comment> \<open>with the \<open>i\<close> flag a class matches a character when it holds one of the same canonical
      form: the character itself or its counterpart of the other case\<close>
  "classHas ic P ch = (P ch \<or> (ic \<and> (P (canonicalize ch) \<or> P (toLowerChar ch))))"

fun decMax :: "nat option \<Rightarrow> nat option" where
  "decMax None = None"
| "decMax (Some k) = Some (k - 1)"

text \<open>
  \<open>RepeatMatcher\<close> (ECMA-262, 22.2.2.3.1), step by step: \<open>d\<close> is the continuation that
  runs after one more iteration and refuses an iteration that read nothing once \<open>min\<close> is
  zero; the captures of the repeated atom are cleared before each iteration. The recursion
  of the standard goes through \<open>d\<close>, so it is counted down by \<open>fuel\<close>: every round lowers
  \<open>min\<close> or reads a character, and the matcher starts with one more than \<open>min\<close> plus
  the number of characters left.
\<close>

fun repeatMatcher ::
  "nat \<Rightarrow> matcher \<Rightarrow> nat list \<Rightarrow> nat \<Rightarrow> nat option \<Rightarrow> bool \<Rightarrow> matcher" where
  "repeatMatcher 0 mm gs mn mx greedy x c = None"
| "repeatMatcher (Suc fuel) mm gs mn mx greedy x c =
     (if mx = Some 0 then c x
      else
        let d = (\<lambda>y. if mn = 0 \<and> length (rest y) = length (rest x) then None
                     else repeatMatcher fuel mm gs (mn - 1) (decMax mx) greedy y c);
            xr = clearCaps gs x
        in if mn \<noteq> 0 then mm xr d
           else if \<not> greedy then (case c x of Some z \<Rightarrow> Some z | None \<Rightarrow> mm xr d)
           else (case mm xr d of Some z \<Rightarrow> Some z | None \<Rightarrow> c x))"

definition captured :: "mstate \<Rightarrow> mstate \<Rightarrow> string" where
  \<comment> \<open>the input between two states\<close>
  "captured x y = take (length (rest x) - length (rest y)) (rest x)"

definition atLineStart :: "flags \<Rightarrow> mstate \<Rightarrow> bool" where
  "atLineStart fl x =
     (case prev x of None \<Rightarrow> True | Some ch \<Rightarrow> multiline fl \<and> isLineTerminator ch)"

definition atLineEnd :: "flags \<Rightarrow> mstate \<Rightarrow> bool" where
  "atLineEnd fl x =
     (case rest x of [] \<Rightarrow> True | ch # cs \<Rightarrow> multiline fl \<and> isLineTerminator ch)"

definition atWordBoundary :: "mstate \<Rightarrow> bool" where
  "atWordBoundary x =
     ((case prev x of None \<Rightarrow> False | Some ch \<Rightarrow> isWordChar ch) \<noteq>
      (case rest x of [] \<Rightarrow> False | ch # cs \<Rightarrow> isWordChar ch))"

primrec matcherOf :: "flags \<Rightarrow> regex \<Rightarrow> matcher" where
  "matcherOf fl Empty = (\<lambda>x c. c x)"
| "matcherOf fl (Chr a) = charMatcher (chrEq (ignoreCase fl) a)"
| "matcherOf fl (Class P) = charMatcher (classHas (ignoreCase fl) P)"
| "matcherOf fl Dot = charMatcher (\<lambda>ch. \<not> isLineTerminator ch)"
| "matcherOf fl (Seq r1 r2) = (\<lambda>x c. matcherOf fl r1 x (\<lambda>y. matcherOf fl r2 y c))"
| "matcherOf fl (Alt r1 r2) =
     (\<lambda>x c. case matcherOf fl r1 x c of Some z \<Rightarrow> Some z | None \<Rightarrow> matcherOf fl r2 x c)"
| "matcherOf fl (Rep mn mx greedy r) =
     (\<lambda>x c. repeatMatcher (Suc (mn + length (rest x))) (matcherOf fl r) (groupsOf r)
               mn mx greedy x c)"
| "matcherOf fl (Group n r) =
     (\<lambda>x c. matcherOf fl r x (\<lambda>y. c (y\<lparr>caps := (caps y)(n := Some (captured x y))\<rparr>)))"
| "matcherOf fl BOL = (\<lambda>x c. if atLineStart fl x then c x else None)"
| "matcherOf fl EOL = (\<lambda>x c. if atLineEnd fl x then c x else None)"
| "matcherOf fl WordB = (\<lambda>x c. if atWordBoundary x then c x else None)"
| "matcherOf fl (NotAhead r) =
     (\<lambda>x c. case matcherOf fl r x Some of Some z \<Rightarrow> None | None \<Rightarrow> c x)"

text \<open>
  \<open>RegExpBuiltinExec\<close>: the pattern is tried at the current position and then at each
  later one. \<open>searchFrom fl r p s\<close> searches \<open>s\<close>, the input from \<open>lastIndex\<close> on, with
  \<open>p\<close> the character before it; it returns how many characters lie before the match and
  the state at the end of the match.
\<close>

fun searchFrom :: "flags \<Rightarrow> regex \<Rightarrow> char option \<Rightarrow> string \<Rightarrow> (nat \<times> mstate) option" where
  "searchFrom fl r p [] =
     (case matcherOf fl r \<lparr>prev = p, rest = [], caps = (\<lambda>k. None)\<rparr> Some of
        Some y \<Rightarrow> Some (0, y)
      | None \<Rightarrow> None)"
| "searchFrom fl r p (ch # cs) =
     (case matcherOf fl r \<lparr>prev = p, rest = ch # cs, caps = (\<lambda>k. None)\<rparr> Some of
        Some y \<Rightarrow> Some (0, y)
      | None \<Rightarrow> map_option (\<lambda>(i, y). (Suc i, y)) (searchFrom fl r (Some ch) cs))"

definition regexMatch :: "flags \<Rightarrow> regex \<Rightarrow> string \<Rightarrow> mstate option" where
  \<comment> \<open>\<open>String.prototype.match\<close> with a pattern without the \<open>g\<close> flag: the first match\<close>
  "regexMatch fl r s = map_option snd (searchFrom fl r None s)"

definition regexTest :: "flags \<Rightarrow> regex \<Rightarrow> string \<Rightarrow> bool" where
  \<comment> \<open>\<open>RegExp.prototype.test\<close> with a pattern without the \<open>g\<close> flag\<close>
  "regexTest fl r s \<longleftrightarrow> searchFrom fl r None s \<noteq> None"

text \<open>
  \<open>String.prototype.replace\<close> with a pattern with the \<open>g\<close> flag and a replacement string
  that holds no \<open>$\<close>: every match, found from the end of the one before, gives way to the
  replacement; after an empty match the search moves on by one character.
\<close>

lemma drop_eq_Cons_shorter: "drop i s = ch # cs \<Longrightarrow> length cs < length s"
proof -
  assume "drop i s = ch # cs"
  then have "length (drop i s) = Suc (length cs)" by simp
  then show ?thesis by simp
qed

function replaceLoop :: "flags \<Rightarrow> regex \<Rightarrow> string \<Rightarrow> char option \<Rightarrow> string \<Rightarrow> string" where
  "replaceLoop fl r repl p s =
     (case searchFrom fl r p s of
        None \<Rightarrow> s
      | Some (i, y) \<Rightarrow>
          if length (rest y) < length (drop i s)
          then take i s @ repl @ replaceLoop fl r repl (prev y) (rest y)
          else take i s @ repl @
                 (case drop i s of
                    [] \<Rightarrow> []
                  | ch # cs \<Rightarrow> ch # replaceLoop fl r repl (Some ch) cs))"
  by pat_completeness auto
termination
  by (relation "measure (\<lambda>(fl, r, repl, p, s). length s)")
     (auto dest: drop_eq_Cons_shorter)

declare replaceLoop.simps [simp del]

definition replaceAll :: "flags \<Rightarrow> regex \<Rightarrow> string \<Rightarrow> string \<Rightarrow> string" where
  "replaceAll fl r repl s = replaceLoop fl r repl None s"

text \<open>Patterns are written with the following shorthands.\<close>

definition seqs :: "regex list \<Rightarrow> regex" where "seqs rs = foldr Seq rs Empty"
definition alts :: "regex list \<Rightarrow> regex" where "alts rs = foldr Alt (butlast rs) (last rs)"
definition str :: "string \<Rightarrow> regex" where "str s = seqs (map Chr s)"
definition star :: "regex \<Rightarrow> regex" where "star r = Rep 0 None True r"
definition plus1 :: "regex \<Rightarrow> regex" where "plus1 r = Rep 1 None True r"
definition opt :: "regex \<Rightarrow> regex" where "opt r = Rep 0 (Some 1) True r"
definition lazyStar :: "regex \<Rightarrow> regex" where "lazyStar r = Rep 0 None False r"
definition anyChar :: regex where "anyChar = Class (\<lambda>c. isSpace c \<or> \<not> isSpace c)"
definition spaceOrOneOf :: "string \<Rightarrow> regex" where
  "spaceOrOneOf cs = Class (\<lambda>c. isSpace c \<or> c \<in> set cs)"

definition flagsNone :: flags where "flagsNone = \<lparr>ignoreCase = False, multiline = False\<rparr>"
definition flagsI :: flags where "flagsI = \<lparr>ignoreCase = True, multiline = False\<rparr>"
definition flagsM :: flags where "flagsM = \<lparr>ignoreCase = False, multiline = True\<rparr>"
definition flagsIM :: flags where "flagsIM = \<lparr>ignoreCase = True, multiline = True\<rparr>"

section \<open>Data model (types.ts)\<close>

text \<open>
  The interfaces of \<open>types.ts\<close> as records. Optional fields are options. Field names are
  the source's, except that \<open>id\<close>, \<open>title\<close> and \<open>content\<close>, which several interfaces share,
  carry a prefix in the template and reference records.
\<close>

record ParsedReportMetadata =
  title :: string
  severity :: "string option"
  vulnType :: string
  source :: "string option"
  date :: "string option"

record ParsedArtifact =
  label :: string
  content :: string

record ParsedReport =
  raw :: string
  metadata :: ParsedReportMetadata
  artifacts :: "ParsedArtifact list"

record GlideTemplate =
  tpl_id :: string
  tpl_title :: string
  description :: "string option"
  tags :: "string list option"
  codeSnippet :: string
  fileName :: "string option"
  relativePath :: "string option"

record BreakdownReference =
  ref_id :: string
  ref_title :: string
  ref_content :: string

record BreakdownGenerationContext =
  report :: ParsedReport
  referenceBreakdowns :: "BreakdownReference list"
  templates :: "GlideTemplate list"

section \<open>Environment, backends and effects\<close>

text \<open>
  The module \<open>generator.ts\<close> reads \<open>process.env\<close> once. The two backends are outside the
  program: the hosted model behind \<open>generateText\<close>, and the local endpoint behind
  \<open>fetch\<close>. Each is a function of the request and of how many effects came before it, so
  that two calls with the same request may answer differently. What the program does to the
  outside is recorded as a trace of effects; console output is left out.
\<close>

datatype thrown = ErrorObject string | OtherValue

text \<open>
  What a \<open>catch\<close> clause can receive: an \<open>Error\<close> with its message, or any other value.
\<close>

record processEnv =
  env_LOCAL_LLM_ENABLED :: "string option"
  env_NODE_ENV :: "string option"
  env_LOCAL_LLM_URL :: "string option"
  env_LOCAL_LLM_MODEL :: "string option"

datatype localResponse =
    FetchThrows thrown
  | HttpNotOk nat "string option"
  | JsonThrows thrown
  | Payload "string option" "string option"

text \<open>
  What the local endpoint can do: \<open>fetch\<close> rejects; the response is not \<open>ok\<close>, with its
  status and its body text (\<open>None\<close> when reading the text fails); the body is not JSON;
  or the body is a payload with its optional fields \<open>response\<close> and \<open>error\<close>.
\<close>

datatype effect =
    HostedCall string string
  | LocalCall string string string
  | ClockRead
  | TemplatesRead
  | ReferencesRead

record backends =
  generateText :: "nat \<Rightarrow> string \<Rightarrow> string \<Rightarrow> thrown + string"
  fetchLocal :: "nat \<Rightarrow> string \<Rightarrow> string \<Rightarrow> string \<Rightarrow> localResponse"

record GenerateBreakdownDocumentOptions =
  modelId :: "string option"

text \<open>
  The request body of the handler is taken at the type the handler casts it to, an object
  with two optional string fields; \<open>request.json()\<close> may also throw. The two loaders
  catch their own errors and return a list, which is given by the content store.
\<close>

record requestBody =
  body_markdown :: "string option"
  body_source :: "string option"

record contentStore =
  gliderTemplates :: "GlideTemplate list"
  breakdownReferences :: "BreakdownReference list"

datatype response =
    JsonOk string string
  | JsonError nat string "string option"

text \<open>
  \<open>JsonOk document fileName\<close> is the answer with status 200; \<open>JsonError status error
  details\<close> is an answer with an \<open>error\<close> field and the given status.
\<close>

section \<open>Report parser (parser.ts)\<close>

definition grp :: "mstate \<Rightarrow> nat \<Rightarrow> string" where
  \<comment> \<open>\<open>match[n]\<close> where the source takes it for a string. A group that took no part in the
      match is \<open>undefined\<close>, which is falsy as the empty string is; the source calls a
      method on \<open>match[n]\<close> only for groups that every match of their pattern sets.\<close>
  "grp y n = (case caps y n of Some t \<Rightarrow> t | None \<Rightarrow> [])"

definition space :: regex where "space = Class isSpace"
definition word :: regex where "word = Class isWordChar"
definition newline :: regex where "newline = Chr CHR 0x0A"

subsection \<open>Title\<close>

definition titleHeadingRe :: regex where
  \<comment> \<open>\<open>/^#\s+(.+)$/m\<close>\<close>
  "titleHeadingRe = seqs [BOL, Chr CHR ''#'', plus1 space, Group 1 (plus1 Dot), EOL]"

definition titleSummaryRe :: regex where
  \<comment> \<open>\<open>/##\s*Summary\s*\n+(.+)/i\<close>\<close>
  "titleSummaryRe =
     seqs [str ''##'', star space, str ''Summary'', star space, plus1 newline, Group 1 (plus1 Dot)]"

definition extractTitle :: "string \<Rightarrow> string" where
  "extractTitle markdown =
     (let titleMatch =
            (case regexMatch flagsM titleHeadingRe markdown of
               Some y \<Rightarrow> Some y
             | None \<Rightarrow> regexMatch flagsI titleSummaryRe markdown)
      in case titleMatch of
           Some y \<Rightarrow> trim (grp y 1)
         | None \<Rightarrow> ''Unknown Vulnerability'')"

subsection \<open>Severity\<close>

definition severityWords :: regex where
  "severityWords = alts [str ''critical'', str ''high'', str ''medium'', str ''low'']"

definition severityNouns :: regex where
  "severityNouns = alts [str ''severity'', str ''impact'', str ''risk'']"

definition explicitSeverityRe :: regex where
  \<comment> \<open>\<open>/##\s*(?:Severity|Impact)\s*\n+(\w+)/i\<close>\<close>
  "explicitSeverityRe =
     seqs [str ''##'', star space, alts [str ''Severity'', str ''Impact''], star space,
           plus1 newline, Group 1 (plus1 word)]"

definition severityBeforeRe :: regex where
  \<comment> \<open>\<open>/\b(critical|high|medium|low)\s+(?:severity|impact|risk)\b/i\<close>\<close>
  "severityBeforeRe = seqs [WordB, Group 1 severityWords, plus1 space, severityNouns, WordB]"

definition severityAfterRe :: regex where
  \<comment> \<open>\<open>/(?:severity|impact|risk)[:\s]+\b(critical|high|medium|low)\b/i\<close>\<close>
  "severityAfterRe =
     seqs [severityNouns, plus1 (spaceOrOneOf '':''), WordB, Group 1 severityWords, WordB]"

definition extractSeverity :: "string \<Rightarrow> string option" where
  "extractSeverity markdown =
     (case regexMatch flagsI explicitSeverityRe markdown of
        Some explicitSeverity \<Rightarrow> Some (toLowerCase (grp explicitSeverity 1))
      | None \<Rightarrow>
          (let severityMatch =
                 (case regexMatch flagsI severityBeforeRe markdown of
                    Some y \<Rightarrow> Some y
                  | None \<Rightarrow> regexMatch flagsI severityAfterRe markdown)
           in case severityMatch of
                Some y \<Rightarrow> Some (toLowerCase (grp y 1))
              | None \<Rightarrow> None))"

subsection \<open>Vulnerability type\<close>

definition optSep :: regex where
  \<comment> \<open>\<open>[\s-]?\<close>\<close>
  "optSep = opt (spaceOrOneOf ''-'')"

definition reentrancyRe :: regex where
  \<comment> \<open>\<open>/reentrancy|re-entrancy/i\<close>\<close>
  "reentrancyRe = alts [str ''reentrancy'', str ''re-entrancy'']"

definition accessControlRe :: regex where
  \<comment> \<open>\<open>/access[\s-]?control|unauthorized|permission|admin|upper[\s-]?bound|lower[\s-]?bound|bound.*lack|lack.*bound/i\<close>\<close>
  "accessControlRe =
     alts [seqs [str ''access'', optSep, str ''control''], str ''unauthorized'',
           str ''permission'', str ''admin'',
           seqs [str ''upper'', optSep, str ''bound''], seqs [str ''lower'', optSep, str ''bound''],
           seqs [str ''bound'', star Dot, str ''lack''],
           seqs [str ''lack'', star Dot, str ''bound'']]"

definition slippageRe :: regex where
  \<comment> \<open>\<open>/slippage|sandwich.*attack|mev.*attack/i\<close>\<close>
  "slippageRe =
     alts [str ''slippage'', seqs [str ''sandwich'', star Dot, str ''attack''],
           seqs [str ''mev'', star Dot, str ''attack'']]"

definition oracleRe :: regex where
  \<comment> \<open>\<open>/oracle|price[\s-]?feed|chainlink|stale.*price|price.*stale/i\<close>\<close>
  "oracleRe =
     alts [str ''oracle'', seqs [str ''price'', optSep, str ''feed''], str ''chainlink'',
           seqs [str ''stale'', star Dot, str ''price''],
           seqs [str ''price'', star Dot, str ''stale'']]"

definition uncheckedReturnRe :: regex where
  \<comment> \<open>\<open>/unchecked[\s-]?return|return[\s-]?value.*unchecked/i\<close>\<close>
  "uncheckedReturnRe =
     alts [seqs [str ''unchecked'', optSep, str ''return''],
           seqs [str ''return'', optSep, str ''value'', star Dot, str ''unchecked'']]"

definition validationRe :: regex where
  \<comment> \<open>\<open>/validation|input.*check|parameter.*check|bound.*check|lacks.*validation|missing.*validation|lacks.*check|missing.*check/i\<close>\<close>
  "validationRe =
     alts [str ''validation'', seqs [str ''input'', star Dot, str ''check''],
           seqs [str ''parameter'', star Dot, str ''check''],
           seqs [str ''bound'', star Dot, str ''check''],
           seqs [str ''lacks'', star Dot, str ''validation''],
           seqs [str ''missing'', star Dot, str ''validation''],
           seqs [str ''lacks'', star Dot, str ''check''],
           seqs [str ''missing'', star Dot, str ''check'']]"

definition calculationRe :: regex where
  \<comment> \<open>\<open>/calculation|math|arithmetic|overflow|underflow/i\<close>\<close>
  "calculationRe =
     alts [str ''calculation'', str ''math'', str ''arithmetic'', str ''overflow'',
           str ''underflow'']"

definition dosRe :: regex where
  \<comment> \<open>\<open>/denial[\s-]?of[\s-]?service|dos|grief|brick.*flow|brick.*user/i\<close>\<close>
  "dosRe =
     alts [seqs [str ''denial'', optSep, str ''of'', optSep, str ''service''], str ''dos'',
           str ''grief'', seqs [str ''brick'', star Dot, str ''flow''],
           seqs [str ''brick'', star Dot, str ''user'']]"

definition deadlineRe :: regex where
  \<comment> \<open>\<open>/deadline.*missing|missing.*deadline|timestamp.*check/i\<close>\<close>
  "deadlineRe =
     alts [seqs [str ''deadline'', star Dot, str ''missing''],
           seqs [str ''missing'', star Dot, str ''deadline''],
           seqs [str ''timestamp'', star Dot, str ''check'']]"

definition frontRunningRe :: regex where
  \<comment> \<open>\<open>/front[\s-]?run|mev(?!.*attack)/i\<close>\<close>
  "frontRunningRe =
     alts [seqs [str ''front'', optSep, str ''run''],
           seqs [str ''mev'', NotAhead (seqs [star Dot, str ''attack''])]]"

definition tokenTransferRe :: regex where
  \<comment> \<open>\<open>/token[\s-]?transfer|erc20|erc721/i\<close>\<close>
  "tokenTransferRe = alts [seqs [str ''token'', optSep, str ''transfer''], str ''erc20'', str ''erc721'']"

definition liquidityRe :: regex where
  \<comment> \<open>\<open>/liquidity|pool|amm/i\<close>\<close>
  "liquidityRe = alts [str ''liquidity'', str ''pool'', str ''amm'']"

definition bridgeRe :: regex where
  \<comment> \<open>\<open>/bridge|cross[\s-]?chain|layerzero/i\<close>\<close>
  "bridgeRe = alts [str ''bridge'', seqs [str ''cross'', optSep, str ''chain''], str ''layerzero'']"

definition vulnTypePatterns :: "(string \<times> regex) list" where
  \<comment> \<open>the entries of the object literal, in the order \<open>Object.entries\<close> lists them\<close>
  "vulnTypePatterns =
   [ (''reentrancy'', reentrancyRe),
     (''access-control'', accessControlRe),
     (''slippage'', slippageRe),
     (''oracle'', oracleRe),
     (''unchecked-return'', uncheckedReturnRe),
     (''validation'', validationRe),
     (''calculation'', calculationRe),
     (''dos'', dosRe),
     (''deadline'', deadlineRe),
     (''front-running'', frontRunningRe),
     (''token-transfer'', tokenTransferRe),
     (''liquidity'', liquidityRe),
     (''bridge'', bridgeRe) ]"

fun scanPatterns :: "(string \<times> regex) list \<Rightarrow> string \<Rightarrow> string \<Rightarrow> string" where
  \<comment> \<open>one \<open>for\<close> loop over the entries: the variable \<open>vulnType\<close> is set at the first pattern
      that tests true, and the loop breaks there\<close>
  "scanPatterns [] text vulnType0 = vulnType0"
| "scanPatterns ((type, pattern) # entries) text vulnType0 =
     (if regexTest flagsI pattern text then type else scanPatterns entries text vulnType0)"

definition extractVulnType :: "string \<Rightarrow> string \<Rightarrow> string" where
  "extractVulnType title0 markdown =
     (let titleLower = toLowerCase title0;
          vulnType1 = scanPatterns vulnTypePatterns titleLower ''unknown''
      in if vulnType1 = ''unknown''
         then scanPatterns vulnTypePatterns (take 500 markdown) vulnType1
         else vulnType1)"

subsection \<open>Artifacts\<close>

definition codeBlockRe :: regex where
  \<comment> \<open>\<open>/```(\w+)?\n([\s\S]*?)```/g\<close>\<close>
  "codeBlockRe =
     seqs [str ''```'', opt (Group 1 (plus1 word)), newline, Group 2 (lazyStar anyChar),
           str ''```'']"

definition artifactOf :: "nat \<Rightarrow> mstate \<Rightarrow> ParsedArtifact" where
  \<comment> \<open>the object pushed for a match, \<open>index\<close> being the counter after \<open>++index\<close>\<close>
  "artifactOf index y =
     \<lparr> label = ''Code Snippet '' @ showNat index @
                 (if grp y 1 \<noteq> [] then '' ('' @ grp y 1 @ '')'' else []),
       content = trim (grp y 2) \<rparr>"

text \<open>
  The \<open>while\<close> loop over \<open>codeBlockRegex.exec(markdown)\<close>. The pattern has the \<open>g\<close> flag, so
  every call searches from \<open>lastIndex\<close>, the end of the match before; \<open>p\<close> and \<open>s\<close> are the
  character before \<open>lastIndex\<close> and the input from there on. The loop has no bound of its
  own: a run that does not end is the value \<open>None\<close>.
\<close>

partial_function (option) artifactsLoop ::
  "char option \<Rightarrow> string \<Rightarrow> nat \<Rightarrow> ParsedArtifact list \<Rightarrow> ParsedArtifact list option" where
  "artifactsLoop p s index arts =
     (case searchFrom flagsNone codeBlockRe p s of
        None \<Rightarrow> Some arts
      | Some (i, y) \<Rightarrow>
          artifactsLoop (prev y) (rest y) (Suc index) (arts @ [artifactOf (Suc index) y]))"

declare artifactsLoop.simps [code]

subsection \<open>parseVulnerabilityReport\<close>

text \<open>
  \<open>nowIso\<close> is what \<open>new Date().toISOString()\<close> returns at the call; the date is its part
  before the first \<open>T\<close>.
\<close>

definition parseVulnerabilityReport ::
  "string \<Rightarrow> string option \<Rightarrow> string \<Rightarrow> ParsedReport option" where
  "parseVulnerabilityReport markdown source0 nowIso =
     (let title0 = extractTitle markdown;
          severity0 = extractSeverity markdown;
          vulnType0 = extractVulnType title0 markdown;
          date0 = takeWhile (\<lambda>c. c \<noteq> CHR ''T'') nowIso
      in case artifactsLoop None markdown 0 [] of
           None \<Rightarrow> None
         | Some arts \<Rightarrow>
             Some \<lparr> raw = markdown,
                    metadata = \<lparr> title = title0, severity = severity0, vulnType = vulnType0,
                                 source = source0, date = Some date0 \<rparr>,
                    artifacts = arts \<rparr>)"

section \<open>Generator: constants and pure helpers (generator.ts)\<close>

definition DEFAULT_MODEL_ID :: string where "DEFAULT_MODEL_ID = ''gpt-5-mini''"
definition FALLBACK_MODEL_ID :: string where "FALLBACK_MODEL_ID = ''gpt-5-nano''"
definition MAX_REPORT_LENGTH :: nat where "MAX_REPORT_LENGTH = 6000"
definition MAX_REFERENCE_LENGTH :: nat where "MAX_REFERENCE_LENGTH = 2500"
definition MAX_TOTAL_REFERENCE_LENGTH :: nat where "MAX_TOTAL_REFERENCE_LENGTH = 9000"
definition MAX_TEMPLATE_SUMMARY_LENGTH :: nat where "MAX_TEMPLATE_SUMMARY_LENGTH = 420"
definition FALLBACK_SUMMARY_LENGTH :: nat where "FALLBACK_SUMMARY_LENGTH = 600"

definition truncationMarker :: string where
  "truncationMarker = ''\<newline>... (truncated)''"

definition truncate :: "string \<Rightarrow> nat \<Rightarrow> string" where
  "truncate text maxLength =
     (if length text \<le> maxLength then text
      else take maxLength text @ truncationMarker)"

subsection \<open>buildReferenceDigest\<close>

definition referencePart :: "BreakdownReference \<Rightarrow> string \<Rightarrow> string" where
  \<comment> \<open>the template literal pushed onto \<open>parts\<close>\<close>
  "referencePart reference clipped = ''### '' @ ref_title reference @ ''\<newline>'' @ trim clipped"

fun digestLoop :: "BreakdownReference list \<Rightarrow> nat \<Rightarrow> string list \<Rightarrow> string list" where
  \<comment> \<open>the \<open>for\<close> loop, with its two variables \<open>consumed\<close> and \<open>parts\<close>\<close>
  "digestLoop [] consumed parts = parts"
| "digestLoop (reference # references) consumed parts =
     (if consumed \<ge> MAX_TOTAL_REFERENCE_LENGTH then parts
      else
        let remaining = MAX_TOTAL_REFERENCE_LENGTH - consumed;
            clipped = truncate (ref_content reference) (min MAX_REFERENCE_LENGTH remaining)
        in digestLoop references (consumed + length clipped)
             (parts @ [referencePart reference clipped]))"

definition buildReferenceDigest :: "BreakdownReference list \<Rightarrow> string" where
  "buildReferenceDigest references =
     (if references = [] then ''No additional breakdown references available.''
      else join ''\<newline>\<newline>---\<newline>\<newline>'' (digestLoop references 0 []))"

text \<open>
  The iterations of the loop, for stating what it includes: the reference of each
  iteration that reaches \<open>parts.push\<close>, with the cap handed to \<open>truncate\<close> there.
\<close>

fun digestSteps :: "BreakdownReference list \<Rightarrow> nat \<Rightarrow> (BreakdownReference \<times> nat) list" where
  "digestSteps [] consumed = []"
| "digestSteps (reference # references) consumed =
     (if consumed \<ge> MAX_TOTAL_REFERENCE_LENGTH then []
      else
        let remaining = MAX_TOTAL_REFERENCE_LENGTH - consumed;
            cap = min MAX_REFERENCE_LENGTH remaining;
            clipped = truncate (ref_content reference) cap
        in (reference, cap) # digestSteps references (consumed + length clipped))"

definition clippedText :: "BreakdownReference \<times> nat \<Rightarrow> string" where
  "clippedText step = truncate (ref_content (fst step)) (snd step)"

definition contentTaken :: "BreakdownReference \<times> nat \<Rightarrow> nat" where
  \<comment> \<open>how many characters of the reference's own content an iteration keeps\<close>
  "contentTaken step = min (length (ref_content (fst step))) (snd step)"

definition includedTexts :: "BreakdownReference list \<Rightarrow> string list" where
  \<comment> \<open>the reference texts as they stand in the digest, \<open>clipped.trim()\<close> of each iteration\<close>
  "includedTexts references = map (\<lambda>step. trim (clippedText step)) (digestSteps references 0)"

subsection \<open>buildGliderSkeleton and assembleDocument\<close>

definition buildGliderSkeleton :: string where
  \<open>buildGliderSkeleton = trimEnd (join ''\<newline>''
    [ ''from glider import *'',
      '''',
      ''def query():'',
      ''    """'',
      ''    @title: <replace with concise detection title>'',
      ''    @description:'',
      ''      Detects <summarize the confirmed behaviour> by analysing:'',
      ''        - <bullet describing exploit path>'',
      ''        - <bullet describing impact or prerequisite>'',
      '''',
      ''      This enables <note on business/technical impact>.'',
      '''',
      ''      A hit requires:'',
      ''        - <criterion #1>'',
      ''        - <criterion #2>'',
      ''        - <add more criteria as needed>'',
      '''',
      ''    @tags: tag-one, tag-two, tag-three'',
      ''    """'',
      '''',
      ''    LIMIT_FUNCS = 1_000'',
      '''',
      ''    def matches_primary_signal(fn):'',
      ''        """Outline the principal signal expected for a true positive."""'',
      ''        # TODO: Implement predicate using fn.instructions(), fn.callee_functions(), storage(), etc.'',
      ''        return False'',
      '''',
      ''    def reinforces_context(fn):'',
      ''        """Capture secondary heuristics surfaced in the breakdown."""'',
      ''        # TODO: Implement context checks drawn from the report.'',
      ''        return False'',
      '''',
      ''    def excludes_false_positives(fn):'',
      ''        """List guard rails that remove benign matches or admin-only flows."""'',
      ''        # TODO: Implement guard rail logic once defined.'',
      ''        return True'',
      '''',
      ''    output = ('',
      ''        Functions()'',
      ''        .exec(LIMIT_FUNCS)'',
      ''        # .filter(<helper_name>)  # implement your filter based on breakdown criteria'',
      ''        # .filter(<helper_name>)  # implement your filter based on breakdown criteria'',
      ''        # .filter(<helper_name>)  # implement your filter based on breakdown criteria'',
      ''    )'',
      '''',
      ''    return output'',
      '''',
      ''# Add additional helper functions that cover every detection criterion identified in the breakdown.''
    ])\<close>

definition assembleDocument :: "string \<Rightarrow> string \<Rightarrow> string" where
  "assembleDocument markdown skeleton = join ''\<newline>\<newline>''
     [ trim markdown,
       ''## Boilerplate Glider Skeleton'',
       ''Use this scaffold as a starting point while following official Glider examples.'',
       ''```python'',
       skeleton,
       ''```'' ]"

subsection \<open>Template digest\<close>

definition normalizeWhitespace :: "string \<Rightarrow> string" where
  \<comment> \<open>\<open>text.replace(/\s+/g, ' ').trim()\<close>\<close>
  "normalizeWhitespace text = trim (replaceAll flagsNone (plus1 space) '' '' text)"

definition summarizeTemplate :: "string option \<Rightarrow> nat \<Rightarrow> string option" where
  "summarizeTemplate text maxLength =
     (case text of
        None \<Rightarrow> None
      | Some t \<Rightarrow>
          if t = [] then None
          else
            let normalized = normalizeWhitespace t
            in if length normalized \<le> maxLength then Some normalized
               else Some (take maxLength normalized @ ellipsis))"

definition templatePart :: "GlideTemplate \<Rightarrow> string" where
  \<comment> \<open>the body of the \<open>map\<close> callback; \<open>filter(Boolean)\<close> drops the synopsis line when the
      summary is \<open>undefined\<close> or empty\<close>
  "templatePart template =
     (let summary = summarizeTemplate (description template) MAX_TEMPLATE_SUMMARY_LENGTH
      in join ''\<newline>''
           ([''### '' @ tpl_title template] @
            (case summary of
               None \<Rightarrow> []
             | Some t \<Rightarrow> if t = [] then [] else [''- Synopsis: '' @ t])))"

definition buildTemplateDigest :: "GlideTemplate list \<Rightarrow> string" where
  "buildTemplateDigest tpls =
     (if tpls = [] then ''No glider boilerplates were provided.''
      else join ''\<newline>\<newline>'' (map templatePart tpls))"

subsection \<open>buildPrompt\<close>

definition promptRules :: string where
  \<open>promptRules = join ''\<newline>''
    [ [],
      ''You are a senior blockchain security analyst. Using the provided vulnerability report, reference breakdowns, and glider boilerplate templates, produce a concise Markdown breakdown for investigators.'',
      [],
      ''Respect the following rules:'',
      ''- Base your analysis on the supplied report; use reference breakdowns for style, structure, and heuristics.'',
      ''- Maintain analytical tone, clearly attributing assumptions or missing data.'',
      ''- Do not produce Glider or Python code. Detection guidance must remain descriptive and cite only official Glider documentation when referencing code samples.'',
      ''- When discussing Glider implementation, refer to helper functions by name and note that `query()` is defined without a return type annotation while returning those helper pipelines.'',
      ''- Describe the helper workflow exactly as in the official templates: `LIMIT_FUNCS = 1_000` inside `query()`, inline helper functions without type annotations (e.g., `def has_bridge_context(fn):`) that return booleans, and a final `vulnerable_funcs = Functions().exec(LIMIT_FUNCS)` chain referencing those helpers in order.'',
      ''- Emphasise API-first helper names that mirror the Nomad/unchecked-transfer examples (e.g., `has_unchecked_token_transfers`, `has_bridge_context`, `lacks_access_controls`), and align each blueprint step to those concrete helper responsibilities.'',
      ''- Include actionable insights that map back to evidence or heuristics from the report.'',
      ''- Treat the INTERNAL TEMPLATE HINTS as private context; never mention file names, paths, tags, or template identifiers in the output.'',
      ''- Do not include meta sections such as "Reasoning", "Thoughts", or any <think> tags in the final response.'',
      [],
      ''--- METADATA ---'',
      [] ]\<close>

definition promptFormat :: string where
  \<open>promptFormat = join ''\<newline>''
    [ [],
      [],
      ''--- OUTPUT FORMAT REQUIREMENTS ---'',
      ''Return Markdown with **exactly** the following sections, in order:'',
      ''1. # [Vulnerability Title] Breakdown'',
      ''2. ## Vulnerability Breakdown (summarize core flaw, root cause, and exploit flow)'',
      ''3. ## Evidence & Code Snippets (quote pertinent report snippets or on-chain code; include brief context)'',
      ''4. ## Glider Detection Blueprint (outline descriptive steps for Functions()/filters to confirm a true positive; cite only official Glider docs when referencing APIs)'',
      [],
      ''In the Glider Detection Blueprint, anchor each step to the helper function(s) you would define (e.g., `detect_unprotected_withdrawals`, `matches_unprotected_withdraw`) and describe how `query()` delegates to them.'',
      [],
      ''Use bullet lists where helpful, otherwise concise paragraphs. Tie each detection recommendation back to observed behavior or references. Avoid placeholder text.'',
      [] ]\<close>

definition truthy :: "string option \<Rightarrow> bool" where
  \<comment> \<open>an optional string in a condition: neither \<open>undefined\<close> nor empty\<close>
  "truthy t \<longleftrightarrow> (case t of None \<Rightarrow> False | Some u \<Rightarrow> u \<noteq> [])"

definition metadataLinesOf :: "ParsedReportMetadata \<Rightarrow> string list" where
  "metadataLinesOf md =
     [ ''Title: '' @ title md,
       ''Severity: '' @ (case severity md of Some v \<Rightarrow> v | None \<Rightarrow> ''unknown''),
       ''Vulnerability Type: '' @ vulnType md ] @
     (if truthy (source md) then [''Source: '' @ (case source md of Some v \<Rightarrow> v | None \<Rightarrow> [])] else []) @
     (if truthy (date md) then [''Date: '' @ (case date md of Some v \<Rightarrow> v | None \<Rightarrow> [])] else [])"

definition artifactLines :: "ParsedArtifact list \<Rightarrow> string" where
  "artifactLines arts = join ''\<newline>'' (map (\<lambda>artifact. ''- '' @ label artifact) arts)"

definition buildPrompt :: "BreakdownGenerationContext \<Rightarrow> string" where
  "buildPrompt context =
     (let metadataLines = metadataLinesOf (metadata (report context));
          artifacts0 =
            (if artifactLines (artifacts (report context)) \<noteq> []
             then artifactLines (artifacts (report context))
             else ''None detected in the submitted report.'');
          referenceDigest = buildReferenceDigest (referenceBreakdowns context);
          templateDigest = buildTemplateDigest (templates context);
          truncatedReport = truncate (raw (report context)) MAX_REPORT_LENGTH
      in trim
           (promptRules @ join ''\<newline>'' metadataLines @
            ''\<newline>\<newline>--- SUBMITTED REPORT (Markdown) ---\<newline>'' @ truncatedReport @
            ''\<newline>\<newline>--- AVAILABLE ARTIFACTS ---\<newline>'' @ artifacts0 @
            ''\<newline>\<newline>--- REFERENCE BREAKDOWNS (abbreviated) ---\<newline>'' @ referenceDigest @
            ''\<newline>\<newline>--- INTERNAL TEMPLATE HINTS (DO NOT CITE) ---\<newline>'' @ templateDigest @
            promptFormat))"

subsection \<open>Static fallback document\<close>

definition summarize :: "string \<Rightarrow> nat \<Rightarrow> string" where
  "summarize text maxLength =
     (if length text \<le> maxLength then trim text
      else
        let truncated = take maxLength text;
            lastExtent = max (max (lastIndexOf truncated ''.'')
                                  (lastIndexOf truncated ''\<newline>\<newline>''))
                             (lastIndexOf truncated ''\<newline>'');
            safeCut = (if lastExtent > 200 then nat lastExtent else maxLength)
        in trim (take safeCut truncated) @ ellipsis)"

definition blueprintText :: "string \<Rightarrow> string" where
  "blueprintText referenceTitles = join ''\<newline>''
     [ ''Start with Glider helper functions that map to the failure mode:'',
       ''1. Filter externally callable entry points touching the vulnerable state.'',
       ''2. Inspect arithmetic or state transitions highlighted in the report.'',
       ''3. Correlate on-chain events or storage transitions that confirm the exploit path.'',
       [],
       ''Reference breakdowns you can adapt:'',
       referenceTitles,
       [],
       ''Consult official Glider documentation for Functions(), Instructions(), and Contracts() usage patterns.'' ]"

definition buildFallbackDocument :: "BreakdownGenerationContext \<Rightarrow> thrown \<Rightarrow> string" where
  "buildFallbackDocument context error =
     (let excerpt = summarize (raw (report context)) FALLBACK_SUMMARY_LENGTH;
          referenceTitles =
            (if length (referenceBreakdowns context) > 0
             then join ''\<newline>'' (map (\<lambda>ref. ''- '' @ ref_title ref) (referenceBreakdowns context))
             else ''- None available'');
          artifactList =
            (if length (artifacts (report context)) > 0
             then join ''\<newline>'' (map (\<lambda>artifact. ''- '' @ label artifact) (artifacts (report context)))
             else ''- No code snippets detected'');
          failureNote =
            (case error of
               ErrorObject message \<Rightarrow> message
             | OtherValue \<Rightarrow> ''Unknown model failure while generating breakdown.'')
      in join ''\<newline>\<newline>''
           [ ''# '' @ title (metadata (report context)) @ '' Breakdown'',
             ''## Vulnerability Breakdown'',
             (if excerpt \<noteq> [] then excerpt else ''Report content was not provided.''),
             ''## Evidence & Code Snippets'',
             artifactList,
             ''## Glider Detection Blueprint'',
             blueprintText referenceTitles,
             [],
             ''> AI fallback notice: '' @ failureNote ])"

subsection \<open>sanitizeModelResponse\<close>

definition thinkRe :: regex where
  \<comment> \<open>\<open>/<think>[\s\S]*?<\/think>/gi\<close>\<close>
  "thinkRe = seqs [str ''<think>'', lazyStar anyChar, str ''</think>'']"

definition labelRe :: regex where
  \<comment> \<open>\<open>/^\s*(#+\s*)?(Reasoning|Thoughts|Analysis)\s*:?.*$/gim\<close>\<close>
  "labelRe =
     seqs [BOL, star space, opt (Group 1 (seqs [plus1 (Chr CHR ''#''), star space])),
           Group 2 (alts [str ''Reasoning'', str ''Thoughts'', str ''Analysis'']),
           star space, opt (Chr CHR '':''), star Dot, EOL]"

definition blankRunRe :: regex where
  \<comment> \<open>\<open>/\n{3,}/g\<close>\<close>
  "blankRunRe = Rep 3 None True newline"

definition sanitizeModelResponse :: "string \<Rightarrow> string" where
  "sanitizeModelResponse text =
     (let cleaned1 = replaceAll flagsI thinkRe [] text;
          cleaned2 = replaceAll flagsIM labelRe [] cleaned1;
          cleaned3 = replaceAll flagsNone blankRunRe ''\<newline>\<newline>'' cleaned2
      in trim cleaned3)"

section \<open>Generation orchestrator (generator.ts)\<close>

definition LOCAL_LLM_ENABLED :: "processEnv \<Rightarrow> bool" where
  "LOCAL_LLM_ENABLED env \<longleftrightarrow>
     env_LOCAL_LLM_ENABLED env = Some ''true'' \<and> env_NODE_ENV env \<noteq> Some ''production''"

definition LOCAL_LLM_URL :: "processEnv \<Rightarrow> string" where
  "LOCAL_LLM_URL env =
     (case env_LOCAL_LLM_URL env of Some u \<Rightarrow> u | None \<Rightarrow> ''http://localhost:11434'')"

definition LOCAL_LLM_MODEL :: "processEnv \<Rightarrow> string" where
  "LOCAL_LLM_MODEL env = (case env_LOCAL_LLM_MODEL env of Some u \<Rightarrow> u | None \<Rightarrow> ''qwen3:8b'')"

definition stripTrailingSlash :: "string \<Rightarrow> string" where
  \<comment> \<open>\<open>replace(/\/$/, '')\<close>: the pattern matches only a slash that ends the string\<close>
  "stripTrailingSlash u = (if u \<noteq> [] \<and> last u = CHR ''/'' then butlast u else u)"

definition callLocalModel ::
  "processEnv \<Rightarrow> backends \<Rightarrow> string \<Rightarrow> effect list \<Rightarrow> (thrown + string) \<times> effect list" where
  "callLocalModel env be prompt trace =
     (let endpoint = stripTrailingSlash (LOCAL_LLM_URL env) @ ''/api/generate'';
          trace1 = trace @ [LocalCall endpoint (LOCAL_LLM_MODEL env) prompt]
      in case fetchLocal be (length trace) endpoint (LOCAL_LLM_MODEL env) prompt of
           FetchThrows e \<Rightarrow> (Inl e, trace1)
         | HttpNotOk status errorBody \<Rightarrow>
             (Inl (ErrorObject (''Local model request failed ('' @ showNat status @ ''): '' @
                     (case errorBody of Some b \<Rightarrow> b | None \<Rightarrow> []))), trace1)
         | JsonThrows e \<Rightarrow> (Inl e, trace1)
         | Payload response0 error \<Rightarrow>
             if truthy error
             then (Inl (ErrorObject (''Local model error: '' @ (case error of Some e \<Rightarrow> e | None \<Rightarrow> []))),
                   trace1)
             else
               let output = (case response0 of Some t \<Rightarrow> t | None \<Rightarrow> [])
               in if trim output = []
                  then (Inl (ErrorObject ''Local model returned an empty response.''), trace1)
                  else (Inr output, trace1))"

definition tryGenerateMarkdown ::
  "processEnv \<Rightarrow> backends \<Rightarrow> BreakdownGenerationContext \<Rightarrow> string \<Rightarrow> effect list
     \<Rightarrow> (thrown + string) \<times> effect list" where
  "tryGenerateMarkdown env be context model trace =
     (let prompt = buildPrompt context;
          (rawOutput, trace1) =
            (if LOCAL_LLM_ENABLED env then callLocalModel env be prompt trace
             else
               (case generateText be (length trace) model prompt of
                  Inl e \<Rightarrow> Inl e
                | Inr text \<Rightarrow>
                    if text = [] then Inl (ErrorObject ''Model returned empty response.'')
                    else Inr text,
                trace @ [HostedCall model prompt]))
      in case rawOutput of
           Inl e \<Rightarrow> (Inl e, trace1)
         | Inr out \<Rightarrow>
             let cleaned = sanitizeModelResponse out
             in if cleaned = []
                then (Inl (ErrorObject ''Model returned empty response after sanitization.''), trace1)
                else (Inr cleaned, trace1))"

definition finalDocument :: "string \<Rightarrow> string" where
  \<comment> \<open>the template literal of each \<open>return\<close>: the trimmed document and a line feed\<close>
  "finalDocument doc = trim doc @ ''\<newline>''"

definition chosenModel :: "GenerateBreakdownDocumentOptions \<Rightarrow> string" where
  \<comment> \<open>\<open>options.modelId ?? DEFAULT_MODEL_ID\<close>\<close>
  "chosenModel options = (case modelId options of Some m \<Rightarrow> m | None \<Rightarrow> DEFAULT_MODEL_ID)"

definition primaryCall :: "processEnv \<Rightarrow> BreakdownGenerationContext \<Rightarrow> string \<Rightarrow> effect" where
  \<comment> \<open>the one backend request that \<open>tryGenerateMarkdown\<close> makes for a model\<close>
  "primaryCall env context model =
     (if LOCAL_LLM_ENABLED env
      then LocalCall (stripTrailingSlash (LOCAL_LLM_URL env) @ ''/api/generate'')
             (LOCAL_LLM_MODEL env) (buildPrompt context)
      else HostedCall model (buildPrompt context))"

definition generateBreakdownDocument ::
  "processEnv \<Rightarrow> backends \<Rightarrow> BreakdownGenerationContext \<Rightarrow> GenerateBreakdownDocumentOptions
     \<Rightarrow> effect list \<Rightarrow> (thrown + string) \<times> effect list" where
  "generateBreakdownDocument env be context options trace =
     (let modelId0 = chosenModel options;
          skeleton = buildGliderSkeleton
      in case tryGenerateMarkdown env be context modelId0 trace of
           (Inr markdown, trace1) \<Rightarrow>
             (Inr (finalDocument (assembleDocument markdown skeleton)), trace1)
         | (Inl primaryError, trace1) \<Rightarrow>
             if \<not> LOCAL_LLM_ENABLED env \<and> modelId0 \<noteq> FALLBACK_MODEL_ID
             then
               (case tryGenerateMarkdown env be context FALLBACK_MODEL_ID trace1 of
                  (Inr markdown, trace2) \<Rightarrow>
                    (Inr (finalDocument (assembleDocument markdown skeleton)), trace2)
                | (Inl fallbackError, trace2) \<Rightarrow>
                    (Inr (finalDocument
                            (assembleDocument (buildFallbackDocument context fallbackError) skeleton)),
                     trace2))
             else
               (Inr (finalDocument
                       (assembleDocument (buildFallbackDocument context primaryError) skeleton)),
                trace1))"

section \<open>Request handler (app/api/generate/route.ts)\<close>

definition failureDetails :: string where
  "failureDetails = ''The AI was unable to generate a breakdown document. Please try again with a more detailed vulnerability report or review the server logs for more information.''"

definition failureResponse :: "thrown \<Rightarrow> response" where
  \<comment> \<open>the \<open>catch\<close> clause of the handler\<close>
  "failureResponse error =
     JsonError 500
       (case error of
          ErrorObject message \<Rightarrow> message
        | OtherValue \<Rightarrow> ''Generation failed. Please try again.'')
       (Some failureDetails)"

definition POST ::
  "processEnv \<Rightarrow> backends \<Rightarrow> contentStore \<Rightarrow> string \<Rightarrow> thrown + requestBody \<Rightarrow> effect list
     \<Rightarrow> (response \<times> effect list) option" where
  "POST env be store nowIso request trace =
     (case request of
        Inl e \<Rightarrow> Some (failureResponse e, trace)
      | Inr body \<Rightarrow>
          if \<not> truthy (body_markdown body)
          then Some (JsonError 400 ''Missing markdown payload'' None, trace)
          else
            let markdown = (case body_markdown body of Some t \<Rightarrow> t | None \<Rightarrow> [])
            in case parseVulnerabilityReport markdown (body_source body) nowIso of
                 None \<Rightarrow> None
               | Some parsedReport \<Rightarrow>
                   let trace1 = trace @ [ClockRead, TemplatesRead, ReferencesRead];
                       context = \<lparr> report = parsedReport,
                                    referenceBreakdowns = breakdownReferences store,
                                    templates = gliderTemplates store \<rparr>
                   in case generateBreakdownDocument env be context \<lparr> modelId = None \<rparr> trace1 of
                        (Inr document, trace2) \<Rightarrow>
                          Some (JsonOk document ''vulnerability-breakdown.md'', trace2)
                      | (Inl e, trace2) \<Rightarrow> Some (failureResponse e, trace2))"


section \<open>Notions used in the statements\<close>

definition boilerplateHead :: string where
  "boilerplateHead = ''\<newline>\<newline>## Boilerplate Glider Skeleton\<newline>\<newline>Use this scaffold as a starting point while following official Glider examples.\<newline>\<newline>''"

definition fenced :: "string \<Rightarrow> string" where
  "fenced skeleton = ''```python\<newline>\<newline>'' @ skeleton @ ''\<newline>\<newline>```''"

definition staticDocument :: "BreakdownGenerationContext \<Rightarrow> thrown \<Rightarrow> string" where
  \<comment> \<open>what the third tier returns: the assembled static fallback document\<close>
  "staticDocument ctx e =
     finalDocument (assembleDocument (buildFallbackDocument ctx e) buildGliderSkeleton)"

text \<open>
  The four texts that \<open>buildFallbackDocument\<close> computes before it joins its lines, under
  the names of its local constants: the excerpt (or its default), the artifact list, the
  reference titles and the failure note.
\<close>

definition excerptOf :: "BreakdownGenerationContext \<Rightarrow> string" where
  "excerptOf ctx =
     (let excerpt = summarize (raw (report ctx)) FALLBACK_SUMMARY_LENGTH
      in if excerpt \<noteq> [] then excerpt else ''Report content was not provided.'')"

definition artifactListOf :: "BreakdownGenerationContext \<Rightarrow> string" where
  "artifactListOf ctx =
     (if length (artifacts (report ctx)) > 0
      then join ''\<newline>'' (map (\<lambda>artifact. ''- '' @ label artifact) (artifacts (report ctx)))
      else ''- No code snippets detected'')"

definition referenceTitlesOf :: "BreakdownGenerationContext \<Rightarrow> string" where
  "referenceTitlesOf ctx =
     (if length (referenceBreakdowns ctx) > 0
      then join ''\<newline>'' (map (\<lambda>ref. ''- '' @ ref_title ref) (referenceBreakdowns ctx))
      else ''- None available'')"

definition failureNoteOf :: "thrown \<Rightarrow> string" where
  "failureNoteOf e =
     (case e of ErrorObject message \<Rightarrow> message
      | OtherValue \<Rightarrow> ''Unknown model failure while generating breakdown.'')"

text \<open>
  Three notions for reasoning about matchers. A state \<open>y\<close> follows \<open>x\<close> when it lies
  further on in the same input; two states have the same captures outside a list of
  groups; and a matcher returns via its continuation when each of its results is the
  result of the continuation on a state that follows, with the captures outside its own
  groups untouched.
\<close>

definition follows :: "mstate \<Rightarrow> mstate \<Rightarrow> bool" where
  "follows x y \<longleftrightarrow>
     (\<exists>u. rest x = u @ rest y \<and> prev y = (if u = [] then prev x else Some (last u)))"

definition sameCapsOutside :: "nat list \<Rightarrow> mstate \<Rightarrow> mstate \<Rightarrow> bool" where
  "sameCapsOutside gs x y \<longleftrightarrow> (\<forall>k. k \<notin> set gs \<longrightarrow> caps y k = caps x k)"

definition returnsVia :: "matcher \<Rightarrow> nat list \<Rightarrow> bool" where
  "returnsVia mm gs \<longleftrightarrow>
     (\<forall>x c z. mm x c = Some z \<longrightarrow> (\<exists>y. follows x y \<and> sameCapsOutside gs x y \<and> c y = Some z))"

definition firstMatchingTag :: "string \<Rightarrow> string option" where
  \<comment> \<open>Modelled from the spec: the rule for the type tag, the tag of the first pattern of
      the ordered list that matches the text\<close>
  "firstMatchingTag text =
     map_option fst (find (\<lambda>entry. regexTest flagsI (snd entry) text) vulnTypePatterns)"

text \<open>
  Notions for the scan for fenced code blocks. \<open>skip n\<close> moves a matcher state past \<open>n\<close>
  characters; \<open>firstIndex lit s\<close> is the index of the first occurrence of \<open>lit\<close> in \<open>s\<close>
  (JavaScript's \<open>indexOf\<close>); \<open>repChars\<close> is the repetition of a one-character atom, written
  by recursion on the input, against which the general repetition matcher is compared.
\<close>

definition skip :: "nat \<Rightarrow> mstate \<Rightarrow> mstate" where
  "skip n x = x\<lparr>prev := (if n = 0 then prev x else Some (rest x ! (n - 1))),
                 rest := drop n (rest x)\<rparr>"

fun firstIndex :: "string \<Rightarrow> string \<Rightarrow> nat option" where
  "firstIndex lit [] = (if lit = [] then Some 0 else None)"
| "firstIndex lit (c # s) =
     (if prefix lit (c # s) then Some 0 else map_option Suc (firstIndex lit s))"

fun repChars ::
  "(char \<Rightarrow> bool) \<Rightarrow> bool \<Rightarrow> nat \<Rightarrow> char option \<Rightarrow> string \<Rightarrow> (nat \<Rightarrow> string option) \<Rightarrow> cont
     \<Rightarrow> mstate option" where
  "repChars P g mn p [] cs c = (if mn = 0 then c \<lparr>prev = p, rest = [], caps = cs\<rparr> else None)"
| "repChars P g mn p (ch # t) cs c =
     (if mn \<noteq> 0 then (if P ch then repChars P g (mn - 1) (Some ch) t cs c else None)
      else if g
      then (if P ch
            then (case repChars P g 0 (Some ch) t cs c of
                    Some z \<Rightarrow> Some z
                  | None \<Rightarrow> c \<lparr>prev = p, rest = ch # t, caps = cs\<rparr>)
            else c \<lparr>prev = p, rest = ch # t, caps = cs\<rparr>)
      else (case c \<lparr>prev = p, rest = ch # t, caps = cs\<rparr> of
              Some z \<Rightarrow> Some z
            | None \<Rightarrow> if P ch then repChars P g 0 (Some ch) t cs c else None))"

text \<open>
  A document with fenced code blocks is given by its parts: for each block the text before
  it, the language tag of the opening fence (empty when there is none) and the body, and
  after the last block the final text. \<open>fencedBlock\<close> says that the parts are what they are
  called: the first fence after the text before is the opening one, the tag is made of word
  characters, and the first fence after the body's start is the closing one.
  \<open>blockArtifacts\<close> follows the specification's words: it lists the artifacts that the
  blocks stand for, numbered from \<open>n\<close>, each with its label and the trimmed body as
  content.
\<close>

definition fenceMark :: string where
  "fenceMark = ''```''"

fun document :: "(string \<times> string \<times> string) list \<Rightarrow> string \<Rightarrow> string" where
  "document [] final = final"
| "document ((before, lang, body) # blocks) final =
     before @ fenceMark @ lang @ ''\<newline>'' @ body @ fenceMark @ document blocks final"

fun blockArtifacts :: "nat \<Rightarrow> (string \<times> string \<times> string) list \<Rightarrow> ParsedArtifact list" where
  "blockArtifacts n [] = []"
| "blockArtifacts n ((before, lang, body) # blocks) =
     \<lparr> label = ''Code Snippet '' @ showNat n @ (if lang = [] then [] else '' ('' @ lang @ '')''),
       content = trim body \<rparr> # blockArtifacts (Suc n) blocks"

definition fencedBlock :: "string \<times> string \<times> string \<Rightarrow> bool" where
  "fencedBlock b =
     (case b of (before, lang, body) \<Rightarrow>
        firstIndex fenceMark (before @ fenceMark) = Some (length before) \<and>
        list_all isWordChar lang \<and>
        firstIndex fenceMark (body @ fenceMark) = Some (length body))"

section \<open>Concrete inputs\<close>

text \<open>Inputs on which the functions are evaluated below.\<close>

definition bigReference :: BreakdownReference where
  "bigReference = \<lparr> ref_id = ''big'', ref_title = ''Big'', ref_content = replicate 2501 CHR ''x'' \<rparr>"

definition emptyReport :: ParsedReport where
  "emptyReport = \<lparr> raw = [], metadata = \<lparr> title = ''Unknown Vulnerability'', severity = None,
       vulnType = ''unknown'', source = None, date = None \<rparr>, artifacts = [] \<rparr>"

definition emptyContext :: BreakdownGenerationContext where
  "emptyContext = \<lparr> report = emptyReport, referenceBreakdowns = [], templates = [] \<rparr>"

definition hostedEnv :: processEnv where
  "hostedEnv = \<lparr> env_LOCAL_LLM_ENABLED = None, env_NODE_ENV = None, env_LOCAL_LLM_URL = None,
       env_LOCAL_LLM_MODEL = None \<rparr>"

definition localEnv :: processEnv where
  "localEnv = \<lparr> env_LOCAL_LLM_ENABLED = Some ''true'', env_NODE_ENV = None,
       env_LOCAL_LLM_URL = None, env_LOCAL_LLM_MODEL = None \<rparr>"

definition failingBackends :: backends where
  "failingBackends = \<lparr> generateText = (\<lambda>n model prompt. Inl (ErrorObject ''network down'')),
       fetchLocal = (\<lambda>n endpoint model prompt. FetchThrows (ErrorObject ''connection refused'')) \<rparr>"

definition defaultOptions :: GenerateBreakdownDocumentOptions where
  "defaultOptions = \<lparr> modelId = None \<rparr>"

definition emptyStore :: contentStore where
  "emptyStore = \<lparr> gliderTemplates = [], breakdownReferences = [] \<rparr>"

definition sampleNow :: string where
  "sampleNow = ''2025-01-01T00:00:00.000Z''"

definition impactReport :: string where
  "impactReport = ''## Impact\<newline>Attackers can drain the vault''"

definition severityReport :: string where
  "severityReport = ''## Severity\<newline>High''"

definition plainReport :: string where
  "plainReport = ''# Vault bug\<newline>Funds are lost.''"

definition cuesReport :: string where
  "cuesReport = ''# Access control validation''"

definition mixedReport :: string where
  "mixedReport = ''# Reentrancy, access control validation''"

definition twoBlocks :: "(string \<times> string \<times> string) list" where
  "twoBlocks = [(''Intro\<newline>'', ''js'', ''x = 1\<newline>''), (''\<newline>then `y`\<newline>'', [], '' plain\<newline>'')]"

section \<open>Evaluation\<close>

text \<open>
  The character functions are defined by the character's code. For evaluation each gets an
  equation on the eight bits of the character, proved from the definition.
\<close>

lemma canonicalize_code [code]:
  "canonicalize (Char b0 b1 b2 b3 b4 b5 b6 b7) =
     (if b5 \<and> b6 \<and>
         (if b7 then \<not> (b0 \<and> b1 \<and> b2 \<and> b4)
          else (b0 \<or> b1 \<or> b2 \<or> b3 \<or> b4) \<and> \<not> (b4 \<and> b3 \<and> (b2 \<or> (b1 \<and> b0))))
      then Char b0 b1 b2 b3 b4 False b6 b7
      else Char b0 b1 b2 b3 b4 b5 b6 b7)"
  by (cases b0; cases b1; cases b2; cases b3; cases b4; cases b5; cases b6; cases b7;
      simp add: canonicalize_def char_of_eq_iff)

lemma toLowerChar_code [code]:
  "toLowerChar (Char b0 b1 b2 b3 b4 b5 b6 b7) =
     (if \<not> b5 \<and> b6 \<and>
         (if b7 then \<not> (b0 \<and> b1 \<and> b2 \<and> b4)
          else (b0 \<or> b1 \<or> b2 \<or> b3 \<or> b4) \<and> \<not> (b4 \<and> b3 \<and> (b2 \<or> (b1 \<and> b0))))
      then Char b0 b1 b2 b3 b4 True b6 b7
      else Char b0 b1 b2 b3 b4 b5 b6 b7)"
  by (cases b0; cases b1; cases b2; cases b3; cases b4; cases b5; cases b6; cases b7;
      simp add: toLowerChar_def char_of_eq_iff)

lemma isWordChar_code [code]:
  "isWordChar (Char b0 b1 b2 b3 b4 b5 b6 b7) =
     (\<not> b7 \<and>
      (if b6 then (b0 \<or> b1 \<or> b2 \<or> b3 \<or> b4) \<and> \<not> (b4 \<and> b3 \<and> (b2 \<or> (b1 \<and> b0)))
                  \<or> (\<not> b5 \<and> b0 \<and> b1 \<and> b2 \<and> b3 \<and> b4)
       else b5 \<and> b4 \<and> \<not> (b3 \<and> (b2 \<or> b1))))"
  by (cases b0; cases b1; cases b2; cases b3; cases b4; cases b5; cases b6; cases b7;
      simp add: isWordChar_def)

section \<open>Properties of the string helpers\<close>

lemma join_Cons: "join sp (x # xs) = (if xs = [] then x else x @ sp @ join sp xs)"
  by (cases xs) simp_all

lemma trimStart_nonspace [simp]: "\<not> isSpace c \<Longrightarrow> trimStart (c # s) = c # s"
  by (simp add: trimStart_def)

lemma trimEnd_nonspace [simp]: "\<not> isSpace c \<Longrightarrow> trimEnd (s @ [c]) = s @ [c]"
  by (simp add: trimEnd_def)

lemma trimEnd_keeps: "\<not> isSpace c \<Longrightarrow> \<exists>zs. trimEnd (xs @ c # ys) = xs @ c # zs"
proof -
  assume c: "\<not> isSpace c"
  have "\<exists>ws. dropWhile isSpace (rev ys @ c # rev xs) = ws @ c # rev xs"
  proof (induction "rev ys" arbitrary: ys)
    case Nil
    then show ?case using c by simp
  next
    case (Cons a as)
    then obtain ys' where ys: "ys = ys' @ [a]" and as: "as = rev ys'"
      by (metis rev_eq_Cons_iff rev_rev_ident)
    show ?case
    proof (cases "isSpace a")
      case True
      then show ?thesis using Cons(1)[OF as] ys by simp
    next
      case False
      then show ?thesis using ys by auto
    qed
  qed
  then obtain ws where "dropWhile isSpace (rev ys @ c # rev xs) = ws @ c # rev xs" ..
  then have "trimEnd (xs @ c # ys) = xs @ c # rev ws" by (simp add: trimEnd_def)
  then show ?thesis by blast
qed

lemma trimStart_keeps: "\<not> isSpace c \<Longrightarrow> \<exists>ws. trimStart (xs @ c # ys) = ws @ c # ys"
proof (induction xs)
  case Nil
  then show ?case by (simp add: trimStart_def)
next
  case (Cons a xs)
  show ?case
  proof (cases "isSpace a")
    case True
    then show ?thesis using Cons by (simp add: trimStart_def)
  next
    case False
    then have "trimStart ((a # xs) @ c # ys) = (a # xs) @ c # ys" by (simp add: trimStart_def)
    then show ?thesis by blast
  qed
qed

lemma trim_framed: "\<not> isSpace a \<Longrightarrow> \<not> isSpace b \<Longrightarrow> trim (a # s @ [b]) = a # s @ [b]"
proof -
  assume a: "\<not> isSpace a" and b: "\<not> isSpace b"
  have "trimEnd ((a # s) @ [b]) = (a # s) @ [b]" using b by (rule trimEnd_nonspace)
  then show ?thesis using a by (simp add: trim_def)
qed

lemma trim_prefix_kept:
  "\<not> isSpace a \<Longrightarrow> \<not> isSpace c \<Longrightarrow> \<exists>zs. trim (a # xs @ c # ys) = a # xs @ c # zs"
proof -
  assume a: "\<not> isSpace a" and c: "\<not> isSpace c"
  from trimEnd_keeps[OF c, of "a # xs" ys] obtain zs
    where "trimEnd (a # xs @ c # ys) = a # xs @ c # zs" by auto
  then show ?thesis using a by (auto simp: trim_def)
qed

lemma trim_keeps_suffix:
  "\<not> isSpace c \<Longrightarrow> \<not> isSpace d \<Longrightarrow> \<exists>ws. trim (xs @ c # ys @ [d]) = ws @ c # ys @ [d]"
proof -
  assume c: "\<not> isSpace c" and d: "\<not> isSpace d"
  from trimStart_keeps[OF c, of xs "ys @ [d]"] obtain ws
    where ws: "trimStart (xs @ c # ys @ [d]) = ws @ c # ys @ [d]" by blast
  have "trimEnd ((ws @ c # ys) @ [d]) = (ws @ c # ys) @ [d]" using d by (rule trimEnd_nonspace)
  then show ?thesis using ws by (auto simp: trim_def)
qed

lemma trim_same: "s \<noteq> [] \<Longrightarrow> \<not> isSpace (hd s) \<Longrightarrow> \<not> isSpace (last s) \<Longrightarrow> trim s = s"
proof -
  assume s: "s \<noteq> []" and h: "\<not> isSpace (hd s)" and l: "\<not> isSpace (last s)"
  have 1: "trimStart s = s" using s h by (cases s) (simp_all add: trimStart_def)
  have "trimEnd (butlast s @ [last s]) = butlast s @ [last s]" using l by (rule trimEnd_nonspace)
  then have "trimEnd s = s" using s by simp
  then show ?thesis using 1 by (simp add: trim_def)
qed

lemma trimEnd_past: "\<not> isSpace c \<Longrightarrow> trimEnd (xs @ c # ys) = xs @ c # trimEnd ys"
proof -
  assume c: "\<not> isSpace c"
  have "dropWhile isSpace (rev ys @ c # rev xs) = dropWhile isSpace (rev ys) @ c # rev xs"
    using c by (induction "rev ys" arbitrary: ys) (auto simp: dropWhile_append)
  then show ?thesis by (simp add: trimEnd_def)
qed

section \<open>The reference digest\<close>

lemma digestLoop_steps:
  "digestLoop refs c parts =
     parts @ map (\<lambda>st. referencePart (fst st) (clippedText st)) (digestSteps refs c)"
  by (induction refs arbitrary: c parts) (simp_all add: Let_def clippedText_def)

lemma digestSteps_prefix:
  "map fst (digestSteps refs c) = take (length (digestSteps refs c)) refs"
  by (induction refs arbitrary: c) (simp_all add: Let_def)

lemma digestSteps_caps:
  "st \<in> set (digestSteps refs c) \<Longrightarrow> 1 \<le> snd st \<and> snd st \<le> MAX_REFERENCE_LENGTH"
proof (induction refs arbitrary: c)
  case Nil
  then show ?case by simp
next
  case (Cons r refs)
  then show ?case
    by (auto simp: Let_def MAX_REFERENCE_LENGTH_def MAX_TOTAL_REFERENCE_LENGTH_def
        split: if_splits)
qed

lemma contentTaken_le_clipped: "contentTaken st \<le> length (clippedText st)"
  by (simp add: contentTaken_def clippedText_def truncate_def)

lemma digestSteps_taken:
  "sum_list (map contentTaken (digestSteps refs c)) \<le> MAX_TOTAL_REFERENCE_LENGTH - c"
proof (induction refs arbitrary: c)
  case Nil
  then show ?case by simp
next
  case (Cons r refs)
  show ?case
  proof (cases "c \<ge> MAX_TOTAL_REFERENCE_LENGTH")
    case True
    then show ?thesis by simp
  next
    case False
    define cap where "cap = min MAX_REFERENCE_LENGTH (MAX_TOTAL_REFERENCE_LENGTH - c)"
    define clipped where "clipped = truncate (ref_content r) cap"
    have steps: "digestSteps (r # refs) c = (r, cap) # digestSteps refs (c + length clipped)"
      using False by (simp add: Let_def cap_def clipped_def)
    have t1: "contentTaken (r, cap) \<le> MAX_TOTAL_REFERENCE_LENGTH - c"
      by (simp add: contentTaken_def cap_def)
    have t2: "contentTaken (r, cap) \<le> length clipped"
      using contentTaken_le_clipped[of "(r, cap)"] by (simp add: clippedText_def clipped_def)
    have "sum_list (map contentTaken (digestSteps refs (c + length clipped)))
            \<le> MAX_TOTAL_REFERENCE_LENGTH - (c + length clipped)"
      by (rule Cons.IH)
    then show ?thesis using t1 t2 steps by simp
  qed
qed

lemma digestSteps_stop:
  "length (digestSteps refs c) < length refs \<Longrightarrow>
     MAX_TOTAL_REFERENCE_LENGTH
       \<le> c + sum_list (map (\<lambda>st. length (clippedText st)) (digestSteps refs c))"
proof (induction refs arbitrary: c)
  case Nil
  then show ?case by simp
next
  case (Cons r refs)
  show ?case
  proof (cases "c \<ge> MAX_TOTAL_REFERENCE_LENGTH")
    case True
    then show ?thesis by simp
  next
    case False
    define cap where "cap = min MAX_REFERENCE_LENGTH (MAX_TOTAL_REFERENCE_LENGTH - c)"
    define clipped where "clipped = truncate (ref_content r) cap"
    have steps: "digestSteps (r # refs) c = (r, cap) # digestSteps refs (c + length clipped)"
      using False by (simp add: Let_def cap_def clipped_def)
    have "length (digestSteps refs (c + length clipped)) < length refs"
      using Cons.prems steps by simp
    from Cons.IH[OF this] show ?thesis using steps by (simp add: clippedText_def clipped_def)
  qed
qed

lemma clipped_big:
  "truncate (replicate 2501 CHR ''x'') n =
     (if 2501 \<le> n then replicate 2501 CHR ''x'' else replicate n CHR ''x'' @ truncationMarker)"
  by (simp add: truncate_def min_def)

lemma trim_clipped_big:
  "0 < n \<Longrightarrow> n < 2501 \<Longrightarrow>
     trim (replicate n CHR ''x'' @ truncationMarker) = replicate n CHR ''x'' @ truncationMarker"
  by (rule trim_same) (simp_all add: truncationMarker_def isSpace_def hd_append)

lemma length_truncationMarker: "length truncationMarker = 16"
  by (simp add: truncationMarker_def)

lemma length_trim_le: "length (trim s) \<le> length s"
proof -
  have "length (trimEnd t) \<le> length t" for t
    using length_dropWhile_le[of isSpace "rev t"] by (simp add: trimEnd_def)
  moreover have "length (trimStart s) \<le> length s"
    by (simp add: trimStart_def length_dropWhile_le)
  ultimately show ?thesis unfolding trim_def by (rule order_trans)
qed

lemma length_clipped_le: "length (clippedText st) \<le> snd st + 16"
  by (simp add: clippedText_def truncate_def length_truncationMarker)

lemma digestSteps_total:
  "c \<le> MAX_TOTAL_REFERENCE_LENGTH + 16 \<Longrightarrow>
     c + sum_list (map (\<lambda>st. length (clippedText st)) (digestSteps refs c))
       \<le> MAX_TOTAL_REFERENCE_LENGTH + 16"
proof (induction refs arbitrary: c)
  case Nil
  then show ?case by simp
next
  case (Cons r refs)
  show ?case
  proof (cases "c \<ge> MAX_TOTAL_REFERENCE_LENGTH")
    case True
    then show ?thesis using Cons.prems by simp
  next
    case False
    define cap where "cap = min MAX_REFERENCE_LENGTH (MAX_TOTAL_REFERENCE_LENGTH - c)"
    define clipped where "clipped = truncate (ref_content r) cap"
    have steps: "digestSteps (r # refs) c = (r, cap) # digestSteps refs (c + length clipped)"
      using False by (simp add: Let_def cap_def clipped_def)
    have "length clipped \<le> cap + 16"
      using length_clipped_le[of "(r, cap)"] by (simp add: clippedText_def clipped_def)
    then have "c + length clipped \<le> MAX_TOTAL_REFERENCE_LENGTH + 16"
      using False by (simp add: cap_def)
    from Cons.IH[OF this] show ?thesis
      using steps by (simp add: clippedText_def clipped_def)
  qed
qed

lemma digestSteps_before:
  "k < length (digestSteps refs c) \<Longrightarrow>
     c + sum_list (map (\<lambda>st. length (clippedText st)) (take k (digestSteps refs c)))
       < MAX_TOTAL_REFERENCE_LENGTH"
proof (induction refs arbitrary: c k)
  case Nil
  then show ?case by simp
next
  case (Cons r refs)
  show ?case
  proof (cases "c \<ge> MAX_TOTAL_REFERENCE_LENGTH")
    case True
    then show ?thesis using Cons.prems by simp
  next
    case False
    define cap where "cap = min MAX_REFERENCE_LENGTH (MAX_TOTAL_REFERENCE_LENGTH - c)"
    define clipped where "clipped = truncate (ref_content r) cap"
    have steps: "digestSteps (r # refs) c = (r, cap) # digestSteps refs (c + length clipped)"
      using False by (simp add: Let_def cap_def clipped_def)
    show ?thesis
    proof (cases k)
      case 0
      then show ?thesis using False by simp
    next
      case (Suc j)
      then have "j < length (digestSteps refs (c + length clipped))"
        using Cons.prems steps by simp
      from Cons.IH[OF this] show ?thesis
        unfolding steps Suc by (simp add: clippedText_def clipped_def)
    qed
  qed
qed

lemma sum_list_mono_map:
  "(\<And>x. x \<in> set xs \<Longrightarrow> f x \<le> (g x :: nat)) \<Longrightarrow> sum_list (map f xs) \<le> sum_list (map g xs)"
  by (induction xs) (simp_all add: add_mono)

text \<open>
  Claim C2, as stated: every included reference text has at most 2500 characters and the
  included texts together have at most 9000. It fails: \<open>truncate\<close> appends its marker of 16
  characters after cutting at the cap, so one reference of 2501 characters is included with
  2516, and four of them with 9016 in all.
\<close>

theorem reference_digest_counterexample:
  "\<not> length (hd (includedTexts [bigReference])) \<le> MAX_REFERENCE_LENGTH \<and>
   \<not> sum_list (map length
         (includedTexts [bigReference, bigReference, bigReference, bigReference]))
       \<le> MAX_TOTAL_REFERENCE_LENGTH"
  by (simp add: includedTexts_def bigReference_def Let_def clippedText_def clipped_big
        trim_clipped_big MAX_REFERENCE_LENGTH_def MAX_TOTAL_REFERENCE_LENGTH_def
        length_truncationMarker)

text \<open>
  Claim C2, amended. The digest is the fixed sentence for an empty list, and otherwise the
  parts joined by the separator, one part for each reference of an initial segment of the
  list, in the given order. Each part holds the reference's content cut at a cap between 1
  and 2500 characters, with the marker of 16 characters appended when the content was longer
  than the cap, and trimmed: at most 2516 characters. The included texts together have at
  most 9016 characters, and at most 9000 of them are reference content. Every included
  reference was reached with fewer than 9000 characters counted, so a reference beyond the
  cap is left out whole, and one with content is never included with none of it; a
  reference is left out only when the texts before it count 9000 characters or more.
\<close>

theorem reference_digest_bounds:
  "buildReferenceDigest refs =
     (if refs = [] then ''No additional breakdown references available.''
      else join ''\<newline>\<newline>---\<newline>\<newline>''
             (map (\<lambda>st. ''### '' @ ref_title (fst st) @ ''\<newline>'' @ trim (clippedText st))
                (digestSteps refs 0)))
   \<and> map fst (digestSteps refs 0) = take (length (digestSteps refs 0)) refs
   \<and> (\<forall>st \<in> set (digestSteps refs 0).
         1 \<le> snd st \<and> snd st \<le> MAX_REFERENCE_LENGTH \<and>
         contentTaken st \<le> MAX_REFERENCE_LENGTH \<and>
         (ref_content (fst st) \<noteq> [] \<longrightarrow> 1 \<le> contentTaken st) \<and>
         clippedText st = take (contentTaken st) (ref_content (fst st)) @
           (if snd st < length (ref_content (fst st)) then truncationMarker else []) \<and>
         length (trim (clippedText st)) \<le> MAX_REFERENCE_LENGTH + 16)
   \<and> sum_list (map contentTaken (digestSteps refs 0)) \<le> MAX_TOTAL_REFERENCE_LENGTH
   \<and> sum_list (map (\<lambda>st. length (clippedText st)) (digestSteps refs 0))
         \<le> MAX_TOTAL_REFERENCE_LENGTH + 16
   \<and> sum_list (map length (includedTexts refs)) \<le> MAX_TOTAL_REFERENCE_LENGTH + 16
   \<and> (\<forall>k < length (digestSteps refs 0).
         sum_list (map (\<lambda>st. length (clippedText st)) (take k (digestSteps refs 0)))
           < MAX_TOTAL_REFERENCE_LENGTH)
   \<and> (length (digestSteps refs 0) < length refs \<longrightarrow>
         MAX_TOTAL_REFERENCE_LENGTH
           \<le> sum_list (map (\<lambda>st. length (clippedText st)) (digestSteps refs 0)))"
proof (intro conjI ballI allI impI)
  show "buildReferenceDigest refs =
     (if refs = [] then ''No additional breakdown references available.''
      else join ''\<newline>\<newline>---\<newline>\<newline>''
             (map (\<lambda>st. ''### '' @ ref_title (fst st) @ ''\<newline>'' @ trim (clippedText st))
                (digestSteps refs 0)))"
    using digestLoop_steps[of refs 0 "[]"]
    by (simp only: buildReferenceDigest_def referencePart_def append_Nil)
  show "map fst (digestSteps refs 0) = take (length (digestSteps refs 0)) refs"
    by (rule digestSteps_prefix)
  show "sum_list (map contentTaken (digestSteps refs 0)) \<le> MAX_TOTAL_REFERENCE_LENGTH"
    using digestSteps_taken[of refs 0] by simp
  show total: "sum_list (map (\<lambda>st. length (clippedText st)) (digestSteps refs 0))
         \<le> MAX_TOTAL_REFERENCE_LENGTH + 16"
    using digestSteps_total[of 0 refs] by simp
  have "sum_list (map (\<lambda>st. length (trim (clippedText st))) (digestSteps refs 0))
      \<le> sum_list (map (\<lambda>st. length (clippedText st)) (digestSteps refs 0))"
    by (rule sum_list_mono_map) (rule length_trim_le)
  then show "sum_list (map length (includedTexts refs)) \<le> MAX_TOTAL_REFERENCE_LENGTH + 16"
    using total by (simp add: includedTexts_def comp_def)
  show "length (digestSteps refs 0) < length refs \<Longrightarrow>
         MAX_TOTAL_REFERENCE_LENGTH
           \<le> sum_list (map (\<lambda>st. length (clippedText st)) (digestSteps refs 0))"
    using digestSteps_stop[of refs 0] by simp
next
  fix k assume "k < length (digestSteps refs 0)"
  from digestSteps_before[OF this]
  show "sum_list (map (\<lambda>st. length (clippedText st)) (take k (digestSteps refs 0)))
           < MAX_TOTAL_REFERENCE_LENGTH"
    by simp
next
  fix st assume st: "st \<in> set (digestSteps refs 0)"
  from digestSteps_caps[OF st] show one: "1 \<le> snd st" and c: "snd st \<le> MAX_REFERENCE_LENGTH"
    by simp_all
  show "contentTaken st \<le> MAX_REFERENCE_LENGTH" using c by (simp add: contentTaken_def)
  show "1 \<le> contentTaken st" if "ref_content (fst st) \<noteq> []"
    using that one by (cases "ref_content (fst st)") (simp_all add: contentTaken_def)
  show "clippedText st = take (contentTaken st) (ref_content (fst st)) @
           (if snd st < length (ref_content (fst st)) then truncationMarker else [])"
    by (simp add: clippedText_def truncate_def contentTaken_def)
  have "length (trim (clippedText st)) \<le> length (clippedText st)" by (rule length_trim_le)
  also have "\<dots> \<le> snd st + 16" by (rule length_clipped_le)
  finally show "length (trim (clippedText st)) \<le> MAX_REFERENCE_LENGTH + 16" using c by simp
qed

lemma digestSteps_five:
  "digestSteps [bigReference, bigReference, bigReference, bigReference, bigReference] 0 =
     [(bigReference, 2500), (bigReference, 2500), (bigReference, 2500), (bigReference, 1452)]"
  by (simp add: bigReference_def Let_def clipped_big MAX_REFERENCE_LENGTH_def
        MAX_TOTAL_REFERENCE_LENGTH_def length_truncationMarker)

theorem reference_digest_bounds_witness:
  "length (digestSteps [bigReference, bigReference, bigReference, bigReference, bigReference] 0)
     < length [bigReference, bigReference, bigReference, bigReference, bigReference]
   \<and> (bigReference, 1452)
       \<in> set (digestSteps [bigReference, bigReference, bigReference, bigReference, bigReference] 0)
   \<and> ref_content (fst (bigReference, 1452 :: nat)) \<noteq> []
   \<and> 3 < length (digestSteps [bigReference, bigReference, bigReference, bigReference, bigReference] 0)
   \<and> 1 \<le> contentTaken (bigReference, 1452)
   \<and> length (trim (clippedText (bigReference, 1452))) \<le> MAX_REFERENCE_LENGTH + 16
   \<and> sum_list (map (\<lambda>st. length (clippedText st))
         (take 3 (digestSteps [bigReference, bigReference, bigReference, bigReference, bigReference] 0)))
       < MAX_TOTAL_REFERENCE_LENGTH
   \<and> MAX_TOTAL_REFERENCE_LENGTH
       \<le> sum_list (map (\<lambda>st. length (clippedText st))
            (digestSteps [bigReference, bigReference, bigReference, bigReference, bigReference] 0))
   \<and> sum_list (map length
         (includedTexts [bigReference, bigReference, bigReference, bigReference, bigReference]))
       \<le> MAX_TOTAL_REFERENCE_LENGTH + 16"
proof -
  let ?refs = "[bigReference, bigReference, bigReference, bigReference, bigReference]"
  note b = reference_digest_bounds[of ?refs]
  have short: "length (digestSteps ?refs 0) < length ?refs"
    unfolding digestSteps_five by simp
  have step: "(bigReference, 1452) \<in> set (digestSteps ?refs 0)"
    unfolding digestSteps_five by simp
  have ne: "ref_content (fst (bigReference, 1452 :: nat)) \<noteq> []"
    by (simp add: bigReference_def)
  have three: "3 < length (digestSteps ?refs 0)"
    unfolding digestSteps_five by simp
  from b step have per: "(ref_content (fst (bigReference, 1452 :: nat)) \<noteq> [] \<longrightarrow>
        1 \<le> contentTaken (bigReference, 1452)) \<and>
      length (trim (clippedText (bigReference, 1452))) \<le> MAX_REFERENCE_LENGTH + 16"
    by blast
  from b three have before: "sum_list (map (\<lambda>st. length (clippedText st)) (take 3 (digestSteps ?refs 0)))
       < MAX_TOTAL_REFERENCE_LENGTH"
    by blast
  from b short have reached: "MAX_TOTAL_REFERENCE_LENGTH
       \<le> sum_list (map (\<lambda>st. length (clippedText st)) (digestSteps ?refs 0))"
    by blast
  from b have all: "sum_list (map length (includedTexts ?refs)) \<le> MAX_TOTAL_REFERENCE_LENGTH + 16"
    by blast
  from per ne short step three before reached all show ?thesis by blast
qed
section \<open>The assembled document\<close>

lemma assembleDocument_eq:
  "assembleDocument body skeleton = trim body @ boilerplateHead @ fenced skeleton"
  by (simp add: assembleDocument_def boilerplateHead_def fenced_def)

lemma fenced_shape: "\<exists>ys. fenced skeleton = CHR 0x60 # ys @ [CHR 0x60]"
  by (simp add: fenced_def)

lemma not_space_backtick: "\<not> isSpace (CHR 0x60)"
  by (simp add: isSpace_def)

lemma finalDocument_fenced:
  "\<exists>pre. finalDocument (assembleDocument body skeleton) = pre @ fenced skeleton @ ''\<newline>''"
proof -
  obtain ys where ys: "fenced skeleton = CHR 0x60 # ys @ [CHR 0x60]" using fenced_shape by blast
  from trim_keeps_suffix[OF not_space_backtick not_space_backtick,
      of "trim body @ boilerplateHead" ys]
  obtain ws where "trim ((trim body @ boilerplateHead) @ CHR 0x60 # ys @ [CHR 0x60]) =
      ws @ CHR 0x60 # ys @ [CHR 0x60]"
    by blast
  then have "finalDocument (assembleDocument body skeleton) = ws @ fenced skeleton @ ''\<newline>''"
    by (simp add: finalDocument_def assembleDocument_eq ys)
  then show ?thesis by blast
qed

lemma generate_shape:
  "\<exists>body tr. generateBreakdownDocument env be ctx opts trace =
      (Inr (finalDocument (assembleDocument body buildGliderSkeleton)), tr)"
  unfolding generateBreakdownDocument_def Let_def
  by (auto split: prod.splits sum.splits)

text \<open>
  Claim C8: for every body and skeleton, the assembled document starts with the trimmed
  body and holds the skeleton, as it is, between the opening fence \<open>```python\<close> and the
  closing fence. The skeleton is a constant: whatever the context, the options, the
  environment and the backends' answers, the document that \<open>generateBreakdownDocument\<close>
  returns ends with the fenced \<open>buildGliderSkeleton\<close>.
\<close>

theorem assemble_roundtrip:
  "prefix (trim body) (assembleDocument body skeleton) \<and>
   (\<exists>pre. assembleDocument body skeleton =
      pre @ ''```python\<newline>\<newline>'' @ skeleton @ ''\<newline>\<newline>```'') \<and>
   (\<exists>doc tr pre. generateBreakdownDocument env be ctx opts trace = (Inr doc, tr) \<and>
      doc = pre @ ''```python\<newline>\<newline>'' @ buildGliderSkeleton @ ''\<newline>\<newline>```\<newline>'')"
proof (intro conjI)
  show "prefix (trim body) (assembleDocument body skeleton)"
    by (simp add: assembleDocument_eq)
  have "assembleDocument body skeleton = (trim body @ boilerplateHead) @ fenced skeleton"
    by (simp add: assembleDocument_eq)
  then show "\<exists>pre. assembleDocument body skeleton =
      pre @ ''```python\<newline>\<newline>'' @ skeleton @ ''\<newline>\<newline>```''"
    unfolding fenced_def by blast
  obtain b tr where g: "generateBreakdownDocument env be ctx opts trace =
      (Inr (finalDocument (assembleDocument b buildGliderSkeleton)), tr)"
    using generate_shape by blast
  obtain pre where "finalDocument (assembleDocument b buildGliderSkeleton) =
      pre @ fenced buildGliderSkeleton @ ''\<newline>''"
    using finalDocument_fenced by blast
  then have "finalDocument (assembleDocument b buildGliderSkeleton) =
      pre @ ''```python\<newline>\<newline>'' @ buildGliderSkeleton @ ''\<newline>\<newline>```\<newline>''"
    by (simp add: fenced_def)
  with g show "\<exists>doc tr pre. generateBreakdownDocument env be ctx opts trace = (Inr doc, tr) \<and>
      doc = pre @ ''```python\<newline>\<newline>'' @ buildGliderSkeleton @ ''\<newline>\<newline>```\<newline>''"
    by blast
qed

section \<open>The generation orchestrator\<close>

lemma tryGenerateMarkdown_trace:
  "snd (tryGenerateMarkdown env be ctx m trace) = trace @ [primaryCall env ctx m]"
  unfolding tryGenerateMarkdown_def callLocalModel_def primaryCall_def Let_def
  by (auto split: prod.splits sum.splits localResponse.splits if_splits)

lemma generate_cases:
  "generateBreakdownDocument env be ctx opts trace =
     (case tryGenerateMarkdown env be ctx (chosenModel opts) trace of
        (Inr markdown, tr1) \<Rightarrow> (Inr (finalDocument (assembleDocument markdown buildGliderSkeleton)), tr1)
      | (Inl e1, tr1) \<Rightarrow>
          if \<not> LOCAL_LLM_ENABLED env \<and> chosenModel opts \<noteq> FALLBACK_MODEL_ID
          then (case tryGenerateMarkdown env be ctx FALLBACK_MODEL_ID tr1 of
                  (Inr markdown, tr2) \<Rightarrow>
                    (Inr (finalDocument (assembleDocument markdown buildGliderSkeleton)), tr2)
                | (Inl e2, tr2) \<Rightarrow>
                    (Inr (finalDocument (assembleDocument (buildFallbackDocument ctx e2) buildGliderSkeleton)), tr2))
          else (Inr (finalDocument (assembleDocument (buildFallbackDocument ctx e1) buildGliderSkeleton)), tr1))"
  unfolding generateBreakdownDocument_def Let_def by simp

lemma not_space_hash: "\<not> isSpace CHR ''#''" by (simp add: isSpace_def)
lemma not_space_gt: "\<not> isSpace CHR ''>''" by (simp add: isSpace_def)

lemma fallback_parts:
  "buildFallbackDocument ctx e = join ''\<newline>\<newline>''
     [ ''# '' @ title (metadata (report ctx)) @ '' Breakdown'',
       ''## Vulnerability Breakdown'', excerptOf ctx,
       ''## Evidence & Code Snippets'', artifactListOf ctx,
       ''## Glider Detection Blueprint'', blueprintText (referenceTitlesOf ctx),
       [], ''> AI fallback notice: '' @ failureNoteOf e ]"
  by (simp only: buildFallbackDocument_def excerptOf_def artifactListOf_def referenceTitlesOf_def
        failureNoteOf_def Let_def)

lemma staticDocument_exact:
  "staticDocument ctx e =
     ''# '' @ title (metadata (report ctx)) @ '' Breakdown'' @ ''\<newline>\<newline>'' @
     ''## Vulnerability Breakdown'' @ ''\<newline>\<newline>'' @ excerptOf ctx @ ''\<newline>\<newline>'' @
     ''## Evidence & Code Snippets'' @ ''\<newline>\<newline>'' @ artifactListOf ctx @ ''\<newline>\<newline>'' @
     ''## Glider Detection Blueprint'' @ ''\<newline>\<newline>'' @
     blueprintText (referenceTitlesOf ctx) @ ''\<newline>\<newline>\<newline>\<newline>'' @
     trimEnd (''> AI fallback notice: '' @ failureNoteOf e) @ ''\<newline>\<newline>'' @
     ''## Boilerplate Glider Skeleton'' @ ''\<newline>\<newline>'' @
     ''Use this scaffold as a starting point while following official Glider examples.'' @
     ''\<newline>\<newline>'' @ ''```python'' @ ''\<newline>\<newline>'' @ buildGliderSkeleton @ ''\<newline>\<newline>'' @ ''```'' @ ''\<newline>''"
proof -
  define mid where "mid = '' '' @ title (metadata (report ctx)) @ '' Breakdown'' @ ''\<newline>\<newline>'' @
     ''## Vulnerability Breakdown'' @ ''\<newline>\<newline>'' @ excerptOf ctx @ ''\<newline>\<newline>'' @
     ''## Evidence & Code Snippets'' @ ''\<newline>\<newline>'' @ artifactListOf ctx @ ''\<newline>\<newline>'' @
     ''## Glider Detection Blueprint'' @ ''\<newline>\<newline>'' @
     blueprintText (referenceTitlesOf ctx) @ ''\<newline>\<newline>\<newline>\<newline>''"
  define notice where "notice = '' AI fallback notice: '' @ failureNoteOf e"
  have fb: "buildFallbackDocument ctx e = CHR ''#'' # mid @ CHR ''>'' # notice"
    unfolding fallback_parts mid_def notice_def by simp
  have "trimEnd ((CHR ''#'' # mid) @ CHR ''>'' # notice) = (CHR ''#'' # mid) @ CHR ''>'' # trimEnd notice"
    by (rule trimEnd_past[OF not_space_gt])
  then have t: "trim (buildFallbackDocument ctx e) = CHR ''#'' # mid @ CHR ''>'' # trimEnd notice"
    unfolding fb using not_space_hash by (simp add: trim_def)
  define body where "body = mid @ CHR ''>'' # trimEnd notice @ boilerplateHead @
      ''```python\<newline>\<newline>'' @ buildGliderSkeleton @ ''\<newline>\<newline>``''"
  have "assembleDocument (buildFallbackDocument ctx e) buildGliderSkeleton = CHR ''#'' # body @ [CHR 0x60]"
    unfolding assembleDocument_eq t body_def fenced_def by simp
  moreover have "trim (CHR ''#'' # body @ [CHR 0x60]) = CHR ''#'' # body @ [CHR 0x60]"
    by (rule trim_framed[OF not_space_hash not_space_backtick])
  ultimately have s: "staticDocument ctx e = CHR ''#'' # body @ [CHR 0x60] @ ''\<newline>''"
    by (simp add: staticDocument_def finalDocument_def)
  have n: "trimEnd (''> AI fallback notice: '' @ failureNoteOf e) = CHR ''>'' # trimEnd notice"
    using trimEnd_past[OF not_space_gt, of "[]" notice] by (simp add: notice_def)
  show ?thesis unfolding s n body_def mid_def boilerplateHead_def by simp
qed

text \<open>
  Claim C1: for every environment, backend behaviour, context and options, the top-level
  call returns a document and throws nothing. When the call for the primary model fails
  and the call for the fallback model fails as well, the document is the static fallback
  document for one of the two failures. Its first line is the heading \<open># <title> Breakdown\<close>;
  the headings \<open>## Vulnerability Breakdown\<close>, \<open>## Evidence & Code Snippets\<close> and
  \<open>## Glider Detection Blueprint\<close> follow in this order, each on a line of its own between
  two blank lines, with the excerpt, the artifact list and the blueprint under them; the
  document ends with the skeleton inside its fenced block. Nothing is assumed of the report,
  which may be empty.
\<close>

theorem generate_never_throws:
  "\<exists>doc tr. generateBreakdownDocument env be ctx opts trace = (Inr doc, tr) \<and>
     (\<forall>e1 tr1 e2 tr2.
        tryGenerateMarkdown env be ctx (chosenModel opts) trace = (Inl e1, tr1) \<and>
        tryGenerateMarkdown env be ctx FALLBACK_MODEL_ID tr1 = (Inl e2, tr2) \<longrightarrow>
        (\<exists>e. (e = e1 \<or> e = e2) \<and> doc = staticDocument ctx e \<and>
           doc =
             ''# '' @ title (metadata (report ctx)) @ '' Breakdown'' @ ''\<newline>\<newline>'' @
             ''## Vulnerability Breakdown'' @ ''\<newline>\<newline>'' @ excerptOf ctx @ ''\<newline>\<newline>'' @
             ''## Evidence & Code Snippets'' @ ''\<newline>\<newline>'' @ artifactListOf ctx @ ''\<newline>\<newline>'' @
             ''## Glider Detection Blueprint'' @ ''\<newline>\<newline>'' @
             blueprintText (referenceTitlesOf ctx) @ ''\<newline>\<newline>\<newline>\<newline>'' @
             trimEnd (''> AI fallback notice: '' @ failureNoteOf e) @ ''\<newline>\<newline>'' @
             ''## Boilerplate Glider Skeleton'' @ ''\<newline>\<newline>'' @
             ''Use this scaffold as a starting point while following official Glider examples.'' @
             ''\<newline>\<newline>'' @ ''```python'' @ ''\<newline>\<newline>'' @ buildGliderSkeleton @ ''\<newline>\<newline>'' @ ''```'' @ ''\<newline>''))"
proof -
  define shape where "shape = (\<lambda>e.
             ''# '' @ title (metadata (report ctx)) @ '' Breakdown'' @ ''\<newline>\<newline>'' @
             ''## Vulnerability Breakdown'' @ ''\<newline>\<newline>'' @ excerptOf ctx @ ''\<newline>\<newline>'' @
             ''## Evidence & Code Snippets'' @ ''\<newline>\<newline>'' @ artifactListOf ctx @ ''\<newline>\<newline>'' @
             ''## Glider Detection Blueprint'' @ ''\<newline>\<newline>'' @
             blueprintText (referenceTitlesOf ctx) @ ''\<newline>\<newline>\<newline>\<newline>'' @
             trimEnd (''> AI fallback notice: '' @ failureNoteOf e) @ ''\<newline>\<newline>'' @
             ''## Boilerplate Glider Skeleton'' @ ''\<newline>\<newline>'' @
             ''Use this scaffold as a starting point while following official Glider examples.'' @
             ''\<newline>\<newline>'' @ ''```python'' @ ''\<newline>\<newline>'' @ buildGliderSkeleton @ ''\<newline>\<newline>'' @ ''```'' @ ''\<newline>'')"
  have exact: "staticDocument ctx e = shape e" for e
    unfolding shape_def by (rule staticDocument_exact)
  obtain r1 t1 where p: "tryGenerateMarkdown env be ctx (chosenModel opts) trace = (r1, t1)"
    by (cases "tryGenerateMarkdown env be ctx (chosenModel opts) trace")
  obtain r2 t2 where f: "tryGenerateMarkdown env be ctx FALLBACK_MODEL_ID t1 = (r2, t2)"
    by (cases "tryGenerateMarkdown env be ctx FALLBACK_MODEL_ID t1")
  have "\<exists>doc tr. generateBreakdownDocument env be ctx opts trace = (Inr doc, tr) \<and>
     (\<forall>e1 tr1 e2 tr2.
        tryGenerateMarkdown env be ctx (chosenModel opts) trace = (Inl e1, tr1) \<and>
        tryGenerateMarkdown env be ctx FALLBACK_MODEL_ID tr1 = (Inl e2, tr2) \<longrightarrow>
        (\<exists>e. (e = e1 \<or> e = e2) \<and> doc = staticDocument ctx e \<and> doc = shape e))"
  proof (cases r1)
    case (Inr markdown)
    then show ?thesis using p by (simp add: generate_cases)
  next
    case (Inl e1)
    note r1 = this
    show ?thesis
    proof (cases "\<not> LOCAL_LLM_ENABLED env \<and> chosenModel opts \<noteq> FALLBACK_MODEL_ID")
      case False
      then have "generateBreakdownDocument env be ctx opts trace = (Inr (staticDocument ctx e1), t1)"
        using p r1 by (auto simp: generate_cases staticDocument_def)
      then show ?thesis using p r1 exact[of e1] by auto
    next
      case True
      show ?thesis
      proof (cases r2)
        case (Inr markdown)
        then show ?thesis using p f r1 True by (simp add: generate_cases)
      next
        case (Inl e2)
        then have "generateBreakdownDocument env be ctx opts trace = (Inr (staticDocument ctx e2), t2)"
          using p f r1 True by (simp add: generate_cases staticDocument_def)
        then show ?thesis using p f r1 Inl exact[of e2] by auto
      qed
    qed
  qed
  then show ?thesis unfolding shape_def .
qed

lemma hosted_fails:
  "tryGenerateMarkdown hostedEnv failingBackends ctx m trace =
     (Inl (ErrorObject ''network down''), trace @ [HostedCall m (buildPrompt ctx)])"
  by (simp add: tryGenerateMarkdown_def hostedEnv_def failingBackends_def LOCAL_LLM_ENABLED_def)

lemma local_fails:
  "tryGenerateMarkdown localEnv failingBackends ctx m trace =
     (Inl (ErrorObject ''connection refused''), trace @ [primaryCall localEnv ctx m])"
  by (simp add: tryGenerateMarkdown_def callLocalModel_def localEnv_def failingBackends_def
        LOCAL_LLM_ENABLED_def primaryCall_def Let_def)

theorem generate_never_throws_witness:
  "tryGenerateMarkdown hostedEnv failingBackends emptyContext (chosenModel defaultOptions) [] =
     (Inl (ErrorObject ''network down''),
      [HostedCall (chosenModel defaultOptions) (buildPrompt emptyContext)]) \<and>
   tryGenerateMarkdown hostedEnv failingBackends emptyContext FALLBACK_MODEL_ID
     [HostedCall (chosenModel defaultOptions) (buildPrompt emptyContext)] =
     (Inl (ErrorObject ''network down''),
      [HostedCall (chosenModel defaultOptions) (buildPrompt emptyContext),
       HostedCall FALLBACK_MODEL_ID (buildPrompt emptyContext)]) \<and>
   (\<exists>doc tr. generateBreakdownDocument hostedEnv failingBackends emptyContext defaultOptions [] =
       (Inr doc, tr) \<and>
     doc = staticDocument emptyContext (ErrorObject ''network down'') \<and>
     doc =
       ''# '' @ title (metadata (report emptyContext)) @ '' Breakdown'' @ ''\<newline>\<newline>'' @
       ''## Vulnerability Breakdown'' @ ''\<newline>\<newline>'' @ excerptOf emptyContext @ ''\<newline>\<newline>'' @
       ''## Evidence & Code Snippets'' @ ''\<newline>\<newline>'' @ artifactListOf emptyContext @ ''\<newline>\<newline>'' @
       ''## Glider Detection Blueprint'' @ ''\<newline>\<newline>'' @
       blueprintText (referenceTitlesOf emptyContext) @ ''\<newline>\<newline>\<newline>\<newline>'' @
       trimEnd (''> AI fallback notice: '' @ failureNoteOf (ErrorObject ''network down'')) @ ''\<newline>\<newline>'' @
       ''## Boilerplate Glider Skeleton'' @ ''\<newline>\<newline>'' @
       ''Use this scaffold as a starting point while following official Glider examples.'' @
       ''\<newline>\<newline>'' @ ''```python'' @ ''\<newline>\<newline>'' @ buildGliderSkeleton @ ''\<newline>\<newline>'' @ ''```'' @ ''\<newline>'')"
proof -
  define shape where "shape = (\<lambda>e.
       ''# '' @ title (metadata (report emptyContext)) @ '' Breakdown'' @ ''\<newline>\<newline>'' @
       ''## Vulnerability Breakdown'' @ ''\<newline>\<newline>'' @ excerptOf emptyContext @ ''\<newline>\<newline>'' @
       ''## Evidence & Code Snippets'' @ ''\<newline>\<newline>'' @ artifactListOf emptyContext @ ''\<newline>\<newline>'' @
       ''## Glider Detection Blueprint'' @ ''\<newline>\<newline>'' @
       blueprintText (referenceTitlesOf emptyContext) @ ''\<newline>\<newline>\<newline>\<newline>'' @
       trimEnd (''> AI fallback notice: '' @ failureNoteOf e) @ ''\<newline>\<newline>'' @
       ''## Boilerplate Glider Skeleton'' @ ''\<newline>\<newline>'' @
       ''Use this scaffold as a starting point while following official Glider examples.'' @
       ''\<newline>\<newline>'' @ ''```python'' @ ''\<newline>\<newline>'' @ buildGliderSkeleton @ ''\<newline>\<newline>'' @ ''```'' @ ''\<newline>'')"
  have h1: "tryGenerateMarkdown hostedEnv failingBackends emptyContext (chosenModel defaultOptions) [] =
     (Inl (ErrorObject ''network down''),
      [HostedCall (chosenModel defaultOptions) (buildPrompt emptyContext)])"
    using hosted_fails[of emptyContext "chosenModel defaultOptions" "[]"] by simp
  have h2: "tryGenerateMarkdown hostedEnv failingBackends emptyContext FALLBACK_MODEL_ID
     [HostedCall (chosenModel defaultOptions) (buildPrompt emptyContext)] =
     (Inl (ErrorObject ''network down''),
      [HostedCall (chosenModel defaultOptions) (buildPrompt emptyContext),
       HostedCall FALLBACK_MODEL_ID (buildPrompt emptyContext)])"
    using hosted_fails[of emptyContext FALLBACK_MODEL_ID] by simp
  from generate_never_throws[of hostedEnv failingBackends emptyContext defaultOptions "[]"]
  obtain doc tr where g: "generateBreakdownDocument hostedEnv failingBackends emptyContext defaultOptions [] =
       (Inr doc, tr)"
    and imp: "\<forall>e1 tr1 e2 tr2.
        tryGenerateMarkdown hostedEnv failingBackends emptyContext (chosenModel defaultOptions) [] = (Inl e1, tr1) \<and>
        tryGenerateMarkdown hostedEnv failingBackends emptyContext FALLBACK_MODEL_ID tr1 = (Inl e2, tr2) \<longrightarrow>
        (\<exists>e. (e = e1 \<or> e = e2) \<and> doc = staticDocument emptyContext e \<and> doc = shape e)"
    unfolding shape_def by blast
  from imp h1 h2 have "\<exists>e. (e = ErrorObject ''network down'' \<or> e = ErrorObject ''network down'') \<and>
      doc = staticDocument emptyContext e \<and> doc = shape e"
    by blast
  then have "doc = staticDocument emptyContext (ErrorObject ''network down'') \<and>
      doc = shape (ErrorObject ''network down'')"
    by blast
  with g h1 h2 show ?thesis unfolding shape_def by blast
qed

text \<open>
  Claim C7: the effects of a call are the request for the primary model and then, if and
  only if that tier failed, the local override is not active and the chosen model is not
  the fallback model, one request to the hosted fallback model. With the local override
  active, a failure of the first tier gives the static fallback document for that failure,
  after the one request.
\<close>

theorem fallback_attempt_iff:
  "snd (generateBreakdownDocument env be ctx opts trace) =
     trace @ [primaryCall env ctx (chosenModel opts)] @
     (if isl (fst (tryGenerateMarkdown env be ctx (chosenModel opts) trace)) \<and>
         \<not> LOCAL_LLM_ENABLED env \<and> chosenModel opts \<noteq> FALLBACK_MODEL_ID
      then [HostedCall FALLBACK_MODEL_ID (buildPrompt ctx)] else [])
   \<and> (LOCAL_LLM_ENABLED env \<longrightarrow>
        (\<forall>e. fst (tryGenerateMarkdown env be ctx (chosenModel opts) trace) = Inl e \<longrightarrow>
           generateBreakdownDocument env be ctx opts trace =
             (Inr (staticDocument ctx e), trace @ [primaryCall env ctx (chosenModel opts)])))"
proof -
  obtain r1 t1 where p: "tryGenerateMarkdown env be ctx (chosenModel opts) trace = (r1, t1)"
    by (cases "tryGenerateMarkdown env be ctx (chosenModel opts) trace")
  have t1: "t1 = trace @ [primaryCall env ctx (chosenModel opts)]"
    using tryGenerateMarkdown_trace[of env be ctx "chosenModel opts" trace] p by simp
  obtain r2 t2 where f: "tryGenerateMarkdown env be ctx FALLBACK_MODEL_ID t1 = (r2, t2)"
    by (cases "tryGenerateMarkdown env be ctx FALLBACK_MODEL_ID t1")
  have t2: "t2 = t1 @ [primaryCall env ctx FALLBACK_MODEL_ID]"
    using tryGenerateMarkdown_trace[of env be ctx FALLBACK_MODEL_ID t1] f by simp
  show ?thesis
  proof (cases r1)
    case (Inr markdown)
    then show ?thesis using p t1 by (simp add: generate_cases)
  next
    case (Inl e1)
    show ?thesis
    proof (cases "\<not> LOCAL_LLM_ENABLED env \<and> chosenModel opts \<noteq> FALLBACK_MODEL_ID")
      case False
      then show ?thesis using p t1 Inl by (auto simp: generate_cases staticDocument_def)
    next
      case True
      then have "primaryCall env ctx FALLBACK_MODEL_ID = HostedCall FALLBACK_MODEL_ID (buildPrompt ctx)"
        by (simp add: primaryCall_def)
      then show ?thesis using p f t1 t2 Inl True by (cases r2) (simp_all add: generate_cases)
    qed
  qed
qed

theorem fallback_attempt_iff_witness:
  "LOCAL_LLM_ENABLED localEnv \<and>
   fst (tryGenerateMarkdown localEnv failingBackends emptyContext (chosenModel defaultOptions) []) =
     Inl (ErrorObject ''connection refused'') \<and>
   generateBreakdownDocument localEnv failingBackends emptyContext defaultOptions [] =
     (Inr (staticDocument emptyContext (ErrorObject ''connection refused'')),
      [primaryCall localEnv emptyContext (chosenModel defaultOptions)])"
proof -
  have l: "LOCAL_LLM_ENABLED localEnv" by (simp add: LOCAL_LLM_ENABLED_def localEnv_def)
  have f: "fst (tryGenerateMarkdown localEnv failingBackends emptyContext (chosenModel defaultOptions) []) =
     Inl (ErrorObject ''connection refused'')"
    by (simp add: local_fails)
  from fallback_attempt_iff[of localEnv failingBackends emptyContext defaultOptions "[]"] l f
  show ?thesis by simp
qed

section \<open>The request handler\<close>

text \<open>
  Claim C10: a request body whose \<open>markdown\<close> field is absent or the empty string is
  answered with status 400 and the error \<open>Missing markdown payload\<close>, and the trace of
  effects is the one the handler started with: nothing is parsed, loaded or generated.
\<close>

theorem missing_markdown_rejected:
  "body_markdown body = None \<or> body_markdown body = Some [] \<Longrightarrow>
     POST env be store nowIso (Inr body) trace =
       Some (JsonError 400 ''Missing markdown payload'' None, trace)"
  by (auto simp: POST_def truthy_def)

theorem missing_markdown_rejected_witness:
  "POST hostedEnv failingBackends emptyStore ''2025-01-01T00:00:00.000Z''
     (Inr \<lparr> body_markdown = Some [], body_source = None \<rparr>) [] =
       Some (JsonError 400 ''Missing markdown payload'' None, []) \<and>
   POST hostedEnv failingBackends emptyStore ''2025-01-01T00:00:00.000Z''
     (Inr \<lparr> body_markdown = None, body_source = Some ''audit'' \<rparr>) [] =
       Some (JsonError 400 ''Missing markdown payload'' None, [])"
  using missing_markdown_rejected[of "\<lparr> body_markdown = Some [], body_source = None \<rparr>"
          hostedEnv failingBackends emptyStore "''2025-01-01T00:00:00.000Z''" "[]"]
        missing_markdown_rejected[of "\<lparr> body_markdown = None, body_source = Some ''audit'' \<rparr>"
          hostedEnv failingBackends emptyStore "''2025-01-01T00:00:00.000Z''" "[]"]
  by simp

section \<open>Properties of the matcher\<close>

lemma follows_refl [simp]: "follows x x"
  by (simp add: follows_def)

lemma follows_trans: "follows x y \<Longrightarrow> follows y z \<Longrightarrow> follows x z"
proof -
  assume "follows x y" "follows y z"
  then obtain u v where u: "rest x = u @ rest y" "prev y = (if u = [] then prev x else Some (last u))"
    and v: "rest y = v @ rest z" "prev z = (if v = [] then prev y else Some (last v))"
    unfolding follows_def by blast
  have "rest x = (u @ v) @ rest z" using u v by simp
  moreover have "prev z = (if u @ v = [] then prev x else Some (last (u @ v)))"
    using u v by simp
  ultimately show ?thesis unfolding follows_def by blast
qed

lemma follows_length: "follows x y \<Longrightarrow> length (rest y) \<le> length (rest x)"
  by (auto simp: follows_def)

lemma follows_caps [simp]: "follows x (y\<lparr>caps := f\<rparr>) = follows x y"
  by (simp add: follows_def)

lemma follows_clear [simp]: "follows (clearCaps gs x) y = follows x y"
  by (simp add: follows_def clearCaps_def)

lemma sameCaps_refl [simp]: "sameCapsOutside gs x x"
  by (simp add: sameCapsOutside_def)

lemma via_self:
  "c x = Some z \<Longrightarrow> \<exists>y. follows x y \<and> sameCapsOutside gs x y \<and> c y = Some z"
  by (intro exI[of _ x]) simp

lemma returnsVia_char: "returnsVia (charMatcher P) []"
  unfolding returnsVia_def charMatcher_def
proof (intro allI impI)
  fix x :: mstate and c :: cont and z
  assume a: "(case rest x of [] \<Rightarrow> None
       | ch # cs \<Rightarrow> if P ch then c (x\<lparr>prev := Some ch, rest := cs\<rparr>) else None) = Some z"
  then obtain ch cs where r: "rest x = ch # cs" and p: "P ch"
    and c: "c (x\<lparr>prev := Some ch, rest := cs\<rparr>) = Some z"
    by (auto split: list.splits if_splits)
  have "follows x (x\<lparr>prev := Some ch, rest := cs\<rparr>)"
    unfolding follows_def using r by (intro exI[of _ "[ch]"]) simp
  moreover have "sameCapsOutside [] x (x\<lparr>prev := Some ch, rest := cs\<rparr>)"
    by (simp add: sameCapsOutside_def)
  ultimately show "\<exists>y. follows x y \<and> sameCapsOutside [] x y \<and> c y = Some z" using c by blast
qed

lemma returnsVia_repeat:
  assumes mm: "returnsVia mm gs"
  shows "repeatMatcher fuel mm gs mn mx g x c = Some z \<Longrightarrow>
           \<exists>y. follows x y \<and> sameCapsOutside gs x y \<and> c y = Some z"
proof (induction fuel arbitrary: mn mx x z)
  case 0
  then show ?case by simp
next
  case (Suc fuel)
  let ?d = "\<lambda>y. if mn = 0 \<and> length (rest y) = length (rest x) then None
                     else repeatMatcher fuel mm gs (mn - 1) (decMax mx) g y c"
  have viaD: "\<exists>y. follows x y \<and> sameCapsOutside gs x y \<and> c y = Some z"
    if h: "mm (clearCaps gs x) ?d = Some z"
  proof -
    from mm h obtain y1 where f1: "follows (clearCaps gs x) y1"
      and s1: "sameCapsOutside gs (clearCaps gs x) y1" and d1: "?d y1 = Some z"
      unfolding returnsVia_def by blast
    from d1 have "repeatMatcher fuel mm gs (mn - 1) (decMax mx) g y1 c = Some z"
      by (auto split: if_splits)
    from Suc.IH[OF this] obtain y where f2: "follows y1 y" and s2: "sameCapsOutside gs y1 y"
      and cy: "c y = Some z" by blast
    have "follows x y" using f1 f2 follows_trans by simp
    moreover have "sameCapsOutside gs x y"
      using s1 s2 by (auto simp: sameCapsOutside_def clearCaps_def)
    ultimately show ?thesis using cy by blast
  qed
  show ?case
  proof (cases "mx = Some 0")
    case True
    then have "c x = Some z" using Suc.prems by simp
    then show ?thesis by (rule via_self)
  next
    case False
    show ?thesis
    proof (cases "mn \<noteq> 0")
      case True
      then have "mm (clearCaps gs x) ?d = Some z" using Suc.prems False by (simp add: Let_def)
      then show ?thesis by (rule viaD)
    next
      case mn0: False
      have "mm (clearCaps gs x) ?d = Some z \<or> c x = Some z"
        using Suc.prems False mn0 by (auto simp: Let_def split: option.splits if_splits)
      then show ?thesis
      proof
        assume "mm (clearCaps gs x) ?d = Some z"
        then show ?thesis by (rule viaD)
      next
        assume "c x = Some z"
        then show ?thesis by (rule via_self)
      qed
    qed
  qed
qed

lemma returnsVia_matcherOf: "returnsVia (matcherOf fl r) (groupsOf r)"
proof (induction r)
  case Empty
  show ?case unfolding returnsVia_def by (auto intro: via_self)
next
  case (Chr a)
  show ?case using returnsVia_char by simp
next
  case (Class P)
  show ?case using returnsVia_char by simp
next
  case Dot
  show ?case using returnsVia_char by simp
next
  case (Seq r1 r2)
  show ?case unfolding returnsVia_def
  proof (intro allI impI)
    fix x c z
    assume "matcherOf fl (Seq r1 r2) x c = Some z"
    then have "matcherOf fl r1 x (\<lambda>y. matcherOf fl r2 y c) = Some z" by simp
    with Seq.IH(1) obtain y1 where f1: "follows x y1" and s1: "sameCapsOutside (groupsOf r1) x y1"
      and m2: "matcherOf fl r2 y1 c = Some z" unfolding returnsVia_def by blast
    with Seq.IH(2) obtain y where f2: "follows y1 y" and s2: "sameCapsOutside (groupsOf r2) y1 y"
      and cy: "c y = Some z" unfolding returnsVia_def by blast
    have "follows x y" using f1 f2 by (rule follows_trans)
    moreover have "sameCapsOutside (groupsOf (Seq r1 r2)) x y"
      using s1 s2 by (auto simp: sameCapsOutside_def)
    ultimately show "\<exists>y. follows x y \<and> sameCapsOutside (groupsOf (Seq r1 r2)) x y \<and> c y = Some z"
      using cy by blast
  qed
next
  case (Alt r1 r2)
  show ?case unfolding returnsVia_def
  proof (intro allI impI)
    fix x c z
    assume "matcherOf fl (Alt r1 r2) x c = Some z"
    then have "matcherOf fl r1 x c = Some z \<or> matcherOf fl r2 x c = Some z"
      by (auto split: option.splits)
    then show "\<exists>y. follows x y \<and> sameCapsOutside (groupsOf (Alt r1 r2)) x y \<and> c y = Some z"
      using Alt.IH unfolding returnsVia_def sameCapsOutside_def by (metis Un_iff groupsOf.simps(6) set_append)
  qed
next
  case (Rep mn mx g r)
  show ?case unfolding returnsVia_def
  proof (intro allI impI)
    fix x c z
    assume "matcherOf fl (Rep mn mx g r) x c = Some z"
    then have "repeatMatcher (Suc (mn + length (rest x))) (matcherOf fl r) (groupsOf r) mn mx g x c = Some z"
      by simp
    from returnsVia_repeat[OF Rep.IH this]
    show "\<exists>y. follows x y \<and> sameCapsOutside (groupsOf (Rep mn mx g r)) x y \<and> c y = Some z" by simp
  qed
next
  case (Group n r)
  show ?case unfolding returnsVia_def
  proof (intro allI impI)
    fix x c z
    assume "matcherOf fl (Group n r) x c = Some z"
    then have "matcherOf fl r x (\<lambda>y. c (y\<lparr>caps := (caps y)(n := Some (captured x y))\<rparr>)) = Some z"
      by simp
    with Group.IH obtain y where f: "follows x y" and s: "sameCapsOutside (groupsOf r) x y"
      and cy: "c (y\<lparr>caps := (caps y)(n := Some (captured x y))\<rparr>) = Some z"
      unfolding returnsVia_def by blast
    let ?y = "y\<lparr>caps := (caps y)(n := Some (captured x y))\<rparr>"
    have "follows x ?y" using f by simp
    moreover have "sameCapsOutside (groupsOf (Group n r)) x ?y"
      using s by (auto simp: sameCapsOutside_def)
    ultimately show "\<exists>y. follows x y \<and> sameCapsOutside (groupsOf (Group n r)) x y \<and> c y = Some z"
      using cy by blast
  qed
next
  case BOL
  show ?case unfolding returnsVia_def by (auto split: if_splits intro: via_self)
next
  case EOL
  show ?case unfolding returnsVia_def by (auto split: if_splits intro: via_self)
next
  case WordB
  show ?case unfolding returnsVia_def by (auto split: if_splits intro: via_self)
next
  case (NotAhead r)
  show ?case unfolding returnsVia_def
  proof (intro allI impI)
    fix x c z
    assume "matcherOf fl (NotAhead r) x c = Some z"
    then have "c x = Some z" by (auto split: option.splits)
    then show "\<exists>y. follows x y \<and> sameCapsOutside (groupsOf (NotAhead r)) x y \<and> c y = Some z"
      by (rule via_self)
  qed
qed

lemma matcher_result:
  "matcherOf fl r x c = Some z \<Longrightarrow>
     \<exists>y. follows x y \<and> sameCapsOutside (groupsOf r) x y \<and> c y = Some z"
  using returnsVia_matcherOf[of fl r] unfolding returnsVia_def by blast

lemma searchFrom_Some:
  "searchFrom fl r p s = Some (i, y) \<Longrightarrow>
     i \<le> length s \<and>
     matcherOf fl r \<lparr>prev = (if i = 0 then p else Some (s ! (i - 1))), rest = drop i s,
                     caps = (\<lambda>k. None)\<rparr> Some = Some y"
proof (induction s arbitrary: p i)
  case Nil
  then show ?case by (auto split: option.splits)
next
  case (Cons ch cs)
  show ?case
  proof (cases "matcherOf fl r \<lparr>prev = p, rest = ch # cs, caps = (\<lambda>k. None)\<rparr> Some")
    case (Some y0)
    then show ?thesis using Cons.prems by simp
  next
    case None
    then obtain j where j: "searchFrom fl r (Some ch) cs = Some (j, y)" and i: "i = Suc j"
      using Cons.prems by auto
    from Cons.IH[OF j] have "j \<le> length cs"
      and m: "matcherOf fl r \<lparr>prev = (if j = 0 then Some ch else Some (cs ! (j - 1))), rest = drop j cs,
                     caps = (\<lambda>k. None)\<rparr> Some = Some y" by simp_all
    have "(if j = 0 then Some ch else Some (cs ! (j - 1))) = Some ((ch # cs) ! j)"
      by (cases j) simp_all
    then show ?thesis using m i \<open>j \<le> length cs\<close> by simp
  qed
qed

lemma searchFrom_follows:
  "searchFrom fl r p s = Some (i, y) \<Longrightarrow> i \<le> length s \<and> suffix (rest y) (drop i s)"
proof -
  assume a: "searchFrom fl r p s = Some (i, y)"
  from searchFrom_Some[OF a] have i: "i \<le> length s"
    and m: "matcherOf fl r \<lparr>prev = (if i = 0 then p else Some (s ! (i - 1))), rest = drop i s,
                     caps = (\<lambda>k. None)\<rparr> Some = Some y" by simp_all
  from matcher_result[OF m] obtain y' where "follows \<lparr>prev = (if i = 0 then p else Some (s ! (i - 1))), rest = drop i s,
                     caps = (\<lambda>k. None)\<rparr> y'" and "Some y' = Some y" by blast
  then show ?thesis using i by (auto simp: follows_def suffix_def)
qed

lemma seqs_Cons: "seqs (r # rs) = Seq r (seqs rs)"
  by (simp add: seqs_def)

lemma str_Cons: "str (a # as) = Seq (Chr a) (str as)"
  by (simp add: str_def seqs_def)

lemma codeBlock_consumes:
  "matcherOf fl codeBlockRe x Some = Some y \<Longrightarrow> length (rest y) < length (rest x)"
proof -
  assume a: "matcherOf fl codeBlockRe x Some = Some y"
  obtain R where R: "codeBlockRe = Seq (Seq (Chr CHR 0x60) R) (seqs [opt (Group 1 (plus1 word)), newline, Group 2 (lazyStar anyChar), str ''```''])"
    unfolding codeBlockRe_def seqs_Cons by (simp add: str_Cons)
  from a[unfolded R] have "charMatcher (chrEq (ignoreCase fl) CHR 0x60) x
      (\<lambda>y1. matcherOf fl R y1 (\<lambda>y2. matcherOf fl (seqs [opt (Group 1 (plus1 word)), newline, Group 2 (lazyStar anyChar), str ''```'']) y2 Some)) = Some y"
    by simp
  then obtain ch cs where r: "rest x = ch # cs"
    and m: "matcherOf fl (Seq R (seqs [opt (Group 1 (plus1 word)), newline, Group 2 (lazyStar anyChar), str ''```''])) (x\<lparr>prev := Some ch, rest := cs\<rparr>) Some = Some y"
    by (auto simp: charMatcher_def split: list.splits if_splits)
  from matcher_result[OF m] have "follows (x\<lparr>prev := Some ch, rest := cs\<rparr>) y" by auto
  then have "length (rest y) \<le> length cs" using follows_length by fastforce
  then show ?thesis using r by simp
qed

lemma codeBlock_search_shorter:
  "searchFrom fl codeBlockRe p s = Some (i, y) \<Longrightarrow> length (rest y) < length s"
proof -
  assume a: "searchFrom fl codeBlockRe p s = Some (i, y)"
  from searchFrom_Some[OF a] codeBlock_consumes
  have "length (rest y) < length (drop i s)" by fastforce
  then show ?thesis by simp
qed

lemma artifactsLoop_returns:
  "\<exists>found. artifactsLoop p s index arts = Some (arts @ found)"
proof (induction "length s" arbitrary: p s index arts rule: less_induct)
  case less
  show ?case
  proof (cases "searchFrom flagsNone codeBlockRe p s")
    case None
    then have "artifactsLoop p s index arts = Some (arts @ [])"
      by (subst artifactsLoop.simps) simp
    then show ?thesis by blast
  next
    case (Some iy)
    obtain i y where iy: "iy = (i, y)" by (cases iy)
    have "length (rest y) < length s" using Some iy codeBlock_search_shorter by simp
    from less[OF this, of "prev y" "Suc index" "arts @ [artifactOf (Suc index) y]"]
    obtain found where "artifactsLoop (prev y) (rest y) (Suc index) (arts @ [artifactOf (Suc index) y]) =
        Some ((arts @ [artifactOf (Suc index) y]) @ found)" by blast
    then have "artifactsLoop p s index arts = Some (arts @ (artifactOf (Suc index) y # found))"
      using Some iy by (subst artifactsLoop.simps) simp
    then show ?thesis by blast
  qed
qed

theorem parse_returns:
  "\<exists>arts. parseVulnerabilityReport markdown src nowIso =
     Some \<lparr> raw = markdown,
            metadata = \<lparr> title = extractTitle markdown, severity = extractSeverity markdown,
                         vulnType = extractVulnType (extractTitle markdown) markdown,
                         source = src, date = Some (takeWhile (\<lambda>c. c \<noteq> CHR ''T'') nowIso) \<rparr>,
            artifacts = arts \<rparr> \<and> artifactsLoop None markdown 0 [] = Some arts"
proof -
  obtain arts where "artifactsLoop None markdown 0 [] = Some arts"
    using artifactsLoop_returns[of None markdown 0 "[]"] by auto
  then show ?thesis by (simp add: parseVulnerabilityReport_def Let_def)
qed

section \<open>The report parser\<close>

lemma severity_impact_eval: "extractSeverity impactReport = Some ''attackers''"
  by code_simp

lemma severity_high_eval: "extractSeverity severityReport = Some ''high''"
  by code_simp

lemma severity_none_eval: "extractSeverity plainReport = None"
  by code_simp

lemma parse_field:
  "map_option (f \<circ> metadata) (parseVulnerabilityReport markdown src nowIso) =
     Some (f \<lparr> title = extractTitle markdown, severity = extractSeverity markdown,
                vulnType = extractVulnType (extractTitle markdown) markdown,
                source = src, date = Some (takeWhile (\<lambda>c. c \<noteq> CHR ''T'') nowIso) \<rparr>)"
  using parse_returns[of markdown src nowIso] by auto

text \<open>
  Claim C3 says that the severity of the parsed report is absent or one of \<open>critical\<close>,
  \<open>high\<close>, \<open>medium\<close>, \<open>low\<close>. The inline patterns keep to these four words, and the
  comment on the field in \<open>types.ts\<close> names them; the pattern for an explicit
  \<open>## Severity\<close> or \<open>## Impact\<close> section takes any word. A report whose Impact section
  starts with prose gets that section's first word as its severity.
\<close>

theorem severity_any_word:
  "map_option (severity \<circ> metadata) (parseVulnerabilityReport impactReport None sampleNow) =
     Some (Some ''attackers'')"
  by (simp add: parse_field severity_impact_eval)

text \<open>
  The two examples of the claim hold: \<open>## Severity\<close> followed by \<open>High\<close> gives \<open>high\<close>,
  and a report with neither a section nor a phrase has no severity.
\<close>

lemma severity_examples:
  "map_option (severity \<circ> metadata) (parseVulnerabilityReport severityReport None sampleNow) =
     Some (Some ''high'') \<and>
   map_option (severity \<circ> metadata) (parseVulnerabilityReport plainReport None sampleNow) =
     Some None"
  by (simp add: parse_field severity_high_eval severity_none_eval)

lemma scanPatterns_find:
  "scanPatterns ps text d =
     (case find (\<lambda>entry. regexTest flagsI (snd entry) text) ps of
        Some entry \<Rightarrow> fst entry | None \<Rightarrow> d)"
  by (induction ps) auto

lemma scan_firstMatchingTag:
  "scanPatterns vulnTypePatterns text d =
     (case firstMatchingTag text of Some tag \<Rightarrow> tag | None \<Rightarrow> d)"
  by (simp add: scanPatterns_find firstMatchingTag_def split: option.splits)

lemma tag_not_unknown: "firstMatchingTag text = Some tag \<Longrightarrow> tag \<noteq> ''unknown''"
proof -
  assume "firstMatchingTag text = Some tag"
  then obtain entry where "find (\<lambda>entry. regexTest flagsI (snd entry) text) vulnTypePatterns = Some entry"
    and "tag = fst entry" by (auto simp: firstMatchingTag_def)
  then have "tag \<in> fst ` set vulnTypePatterns"
    by (metis find_Some_iff image_eqI nth_mem)
  then show ?thesis by (auto simp: vulnTypePatterns_def)
qed

lemma extractVulnType_eq:
  "extractVulnType t markdown =
     (case firstMatchingTag (toLowerCase t) of
        Some tag \<Rightarrow> tag
      | None \<Rightarrow> (case firstMatchingTag (take 500 markdown) of
                   Some tag \<Rightarrow> tag | None \<Rightarrow> ''unknown''))"
proof (cases "firstMatchingTag (toLowerCase t)")
  case None
  then show ?thesis
    by (simp add: extractVulnType_def Let_def scan_firstMatchingTag split: option.splits)
next
  case (Some tag)
  then have "tag \<noteq> ''unknown''" by (rule tag_not_unknown)
  then show ?thesis using Some
    by (simp add: extractVulnType_def Let_def scan_firstMatchingTag)
qed

lemma first_reentrancy:
  "regexTest flagsI reentrancyRe text \<Longrightarrow> firstMatchingTag text = Some ''reentrancy''"
  by (simp add: firstMatchingTag_def vulnTypePatterns_def)

lemma first_access_control:
  "\<not> regexTest flagsI reentrancyRe text \<Longrightarrow> regexTest flagsI accessControlRe text \<Longrightarrow>
     firstMatchingTag text = Some ''access-control''"
  by (simp add: firstMatchingTag_def vulnTypePatterns_def)

text \<open>
  Claim C4, amended. For every report, the type tag is the tag of the first pattern of the
  ordered list that matches the lower-cased title; when no pattern matches the title, the
  tag of the first pattern that matches the first 500 characters of the report; and
  \<open>unknown\<close> when none matches there either. It is a string in every case. A title with
  a cue of the \<open>reentrancy\<close> pattern gives \<open>reentrancy\<close>; a title with an access-control
  cue and no reentrancy cue gives \<open>access-control\<close>, whether or not it holds a validation
  cue as well.
\<close>

theorem vulnType_first_match:
  "\<exists>rep. parseVulnerabilityReport markdown src nowIso = Some rep \<and>
     title (metadata rep) = extractTitle markdown \<and>
     vulnType (metadata rep) =
       (case firstMatchingTag (toLowerCase (extractTitle markdown)) of
          Some tag \<Rightarrow> tag
        | None \<Rightarrow> (case firstMatchingTag (take 500 markdown) of
                     Some tag \<Rightarrow> tag | None \<Rightarrow> ''unknown'')) \<and>
     (regexTest flagsI reentrancyRe (toLowerCase (extractTitle markdown)) \<longrightarrow>
        vulnType (metadata rep) = ''reentrancy'') \<and>
     (regexTest flagsI accessControlRe (toLowerCase (extractTitle markdown)) \<and>
      \<not> regexTest flagsI reentrancyRe (toLowerCase (extractTitle markdown)) \<longrightarrow>
        vulnType (metadata rep) = ''access-control'')"
proof -
  obtain arts where p: "parseVulnerabilityReport markdown src nowIso =
     Some \<lparr> raw = markdown,
            metadata = \<lparr> title = extractTitle markdown, severity = extractSeverity markdown,
                         vulnType = extractVulnType (extractTitle markdown) markdown,
                         source = src, date = Some (takeWhile (\<lambda>c. c \<noteq> CHR ''T'') nowIso) \<rparr>,
            artifacts = arts \<rparr>"
    using parse_returns[of markdown src nowIso] by blast
  show ?thesis unfolding p
    by (auto simp: extractVulnType_eq first_reentrancy first_access_control)
qed

lemma cues_title: "extractTitle cuesReport = ''Access control validation''"
  by code_simp

lemma cues_tests:
  "regexTest flagsI accessControlRe (toLowerCase ''Access control validation'') \<and>
   regexTest flagsI validationRe (toLowerCase ''Access control validation'') \<and>
   \<not> regexTest flagsI reentrancyRe (toLowerCase ''Access control validation'')"
  by code_simp

theorem vulnType_first_match_witness:
  "regexTest flagsI accessControlRe (toLowerCase (extractTitle cuesReport)) \<and>
   \<not> regexTest flagsI reentrancyRe (toLowerCase (extractTitle cuesReport)) \<and>
   map_option (vulnType \<circ> metadata) (parseVulnerabilityReport cuesReport None sampleNow) =
     Some ''access-control''"
proof -
  have t: "regexTest flagsI accessControlRe (toLowerCase (extractTitle cuesReport))"
    and n: "\<not> regexTest flagsI reentrancyRe (toLowerCase (extractTitle cuesReport))"
    using cues_tests by (simp_all add: cues_title)
  from vulnType_first_match[of cuesReport None sampleNow] t n
  obtain rep where "parseVulnerabilityReport cuesReport None sampleNow = Some rep"
    and "vulnType (metadata rep) = ''access-control''" by blast
  then show ?thesis using t n by simp
qed

lemma mixed_title:
  "extractTitle mixedReport = ''Reentrancy, access control validation''"
  by code_simp

lemma mixed_tests:
  "regexTest flagsI accessControlRe (toLowerCase ''Reentrancy, access control validation'') \<and>
   regexTest flagsI validationRe (toLowerCase ''Reentrancy, access control validation'') \<and>
   regexTest flagsI reentrancyRe (toLowerCase ''Reentrancy, access control validation'')"
  by code_simp

text \<open>
  Claim C4, as stated, has a title with an access-control cue and a validation cue give
  \<open>access-control\<close>. The pattern for \<open>reentrancy\<close> stands before both in the list, so a
  title that holds the two cues and the word \<open>Reentrancy\<close> gives \<open>reentrancy\<close>.
\<close>

theorem vulnType_counterexample:
  "regexTest flagsI accessControlRe (toLowerCase (extractTitle mixedReport)) \<and>
   regexTest flagsI validationRe (toLowerCase (extractTitle mixedReport)) \<and>
   map_option (vulnType \<circ> metadata) (parseVulnerabilityReport mixedReport None sampleNow) =
     Some ''reentrancy''"
  using mixed_tests
  by (simp add: parse_field mixed_title extractVulnType_eq first_reentrancy)

section \<open>Fenced code blocks\<close>

subsection \<open>Literals and repetitions of one-character atoms\<close>

lemma skip_0 [simp]: "skip 0 x = x"
  by (simp add: skip_def)

lemma skip_Suc: "rest x = ch # cs \<Longrightarrow> skip (Suc n) x = skip n (x\<lparr>prev := Some ch, rest := cs\<rparr>)"
  by (cases n) (simp_all add: skip_def)

lemma rest_skip [simp]: "rest (skip n x) = drop n (rest x)"
  by (simp add: skip_def)

lemma caps_skip [simp]: "caps (skip n x) = caps x"
  by (simp add: skip_def)

lemma flagsNone_simps [simp]: "ignoreCase flagsNone = False" "multiline flagsNone = False"
  by (simp_all add: flagsNone_def)

lemma clearCaps_Nil [simp]: "clearCaps [] x = x"
  by (simp add: clearCaps_def)

lemma str_prefix:
  "matcherOf flagsNone (str lit) x c =
     (if prefix lit (rest x) then c (skip (length lit) x) else None)"
proof (induction lit arbitrary: x c)
  case Nil
  then show ?case by (simp add: str_def seqs_def)
next
  case (Cons a as)
  show ?case
  proof (cases "rest x")
    case Nil
    then show ?thesis by (simp add: str_Cons charMatcher_def)
  next
    case (Cons ch cs)
    have s: "skip (Suc (length as)) x = skip (length as) (x\<lparr>prev := Some ch, rest := cs\<rparr>)"
      using Cons by (rule skip_Suc)
    show ?thesis
      using Cons Cons.IH[of "x\<lparr>prev := Some ch, rest := cs\<rparr>" c] s
      by (simp add: str_Cons charMatcher_def chrEq_def)
  qed
qed

lemma charMatcher_Nil [simp]:
  "charMatcher P \<lparr>prev = p, rest = [], caps = cs\<rparr> d = None"
  by (simp add: charMatcher_def)

lemma charMatcher_Cons [simp]:
  "charMatcher P \<lparr>prev = p, rest = ch # t, caps = cs\<rparr> d =
     (if P ch then d \<lparr>prev = Some ch, rest = t, caps = cs\<rparr> else None)"
  by (simp add: charMatcher_def)

lemma repeat_chars:
  "Suc (mn + length s) \<le> n \<Longrightarrow>
     repeatMatcher n (charMatcher P) [] mn None g \<lparr>prev = p, rest = s, caps = cs\<rparr> c =
       repChars P g mn p s cs c"
proof (induction s arbitrary: n mn p)
  case Nil
  then obtain n' where n: "n = Suc n'" by (cases n) auto
  show ?case
    by (cases "mn = 0"; cases g; simp add: n Let_def split: option.splits)
next
  case (Cons ch t)
  then obtain n' where n: "n = Suc n'" by (cases n) auto
  have le: "Suc ((mn - 1) + length t) \<le> n'" using Cons.prems n by simp
  have ih: "repeatMatcher n' (charMatcher P) [] (mn - 1) None g
       \<lparr>prev = Some ch, rest = t, caps = cs\<rparr> c =
       repChars P g (mn - 1) (Some ch) t cs c"
    by (rule Cons.IH[OF le])
  show ?case
    using ih
    by (cases "mn = 0"; cases g; cases "P ch"; simp add: n Let_def split: option.splits)
qed

lemma prefix_append_long: "length lit \<le> length xs \<Longrightarrow> prefix lit (xs @ ys) \<longleftrightarrow> prefix lit xs"
proof
  assume l: "length lit \<le> length xs" and "prefix lit (xs @ ys)"
  moreover have "prefix xs (xs @ ys)" by simp
  ultimately show "prefix lit xs" using prefix_length_prefix by blast
next
  assume "prefix lit xs" then show "prefix lit (xs @ ys)" by simp
qed

lemma firstIndex_before:
  "firstIndex lit (u @ lit) = Some (length u) \<Longrightarrow> k < length u \<Longrightarrow>
     \<not> prefix lit (drop k u @ lit @ w)"
proof (induction u arbitrary: k)
  case Nil
  then show ?case by simp
next
  case (Cons a u)
  from Cons.prems(1) have no: "\<not> prefix lit (a # u @ lit)"
    and rest: "firstIndex lit (u @ lit) = Some (length u)"
    by (auto split: if_splits)
  show ?case
  proof (cases k)
    case 0
    have "prefix lit ((a # u @ lit) @ w) \<longleftrightarrow> prefix lit (a # u @ lit)"
      by (rule prefix_append_long) simp
    then show ?thesis using no 0 by simp
  next
    case (Suc k')
    then have "k' < length u" using Cons.prems(2) by simp
    from Cons.IH[OF rest this] show ?thesis using Suc by simp
  qed
qed

lemma firstIndex_None: "firstIndex lit s = None \<Longrightarrow> \<not> prefix lit (drop k s)"
proof (induction s arbitrary: k)
  case Nil
  then show ?case by (auto split: if_splits)
next
  case (Cons a s)
  from Cons.prems have no: "\<not> prefix lit (a # s)" and rest: "firstIndex lit s = None"
    by (auto split: if_splits)
  show ?case
  proof (cases k)
    case 0
    then show ?thesis using no by simp
  next
    case (Suc k')
    then show ?thesis using Cons.IH[OF rest] by simp
  qed
qed

lemma close_literal:
  "lit \<noteq> [] \<Longrightarrow>
   matcherOf flagsNone (str lit) \<lparr>prev = q, rest = s, caps = cs\<rparr> Some =
     (if prefix lit s
      then Some \<lparr>prev = Some (last lit), rest = drop (length lit) s, caps = cs\<rparr> else None)"
proof (cases "prefix lit s")
  case True
  assume ne: "lit \<noteq> []"
  from True obtain t where s: "s = lit @ t" by (auto simp: prefix_def)
  have "(lit @ t) ! (length lit - 1) = last lit"
    using ne by (simp add: nth_append last_conv_nth)
  then show ?thesis using True ne s by (simp add: str_prefix skip_def)
next
  case False
  then show ?thesis by (simp add: str_prefix)
qed

lemma lazy_repChars:
  "(\<And>k q. k < length u \<Longrightarrow> c \<lparr>prev = q, rest = drop k u @ w, caps = cs\<rparr> = None) \<Longrightarrow>
   (\<And>ch. ch \<in> set u \<Longrightarrow> P ch) \<Longrightarrow>
     repChars P False 0 p (u @ w) cs c =
       repChars P False 0 (if u = [] then p else Some (last u)) w cs c"
proof (induction u arbitrary: p)
  case Nil
  then show ?case by simp
next
  case (Cons a u)
  have fail0: "c \<lparr>prev = p, rest = a # u @ w, caps = cs\<rparr> = None"
    using Cons.prems(1)[of 0 p] by simp
  have ih: "repChars P False 0 (Some a) (u @ w) cs c =
       repChars P False 0 (if u = [] then Some a else Some (last u)) w cs c"
  proof (rule Cons.IH)
    fix k q assume "k < length u"
    then show "c \<lparr>prev = q, rest = drop k u @ w, caps = cs\<rparr> = None"
      using Cons.prems(1)[of "Suc k" q] by simp
  next
    fix ch assume "ch \<in> set u" then show "P ch" using Cons.prems(2) by simp
  qed
  have "P a" using Cons.prems(2) by simp
  then show ?case using fail0 ih by simp
qed

lemma repChars_lazy_hit:
  "c \<lparr>prev = p, rest = s, caps = cs\<rparr> = Some z \<Longrightarrow> repChars P False 0 p s cs c = Some z"
  by (cases s) simp_all

lemma anyChar_all [simp]: "classHas ic (\<lambda>c. isSpace c \<or> \<not> isSpace c) ch"
  by (simp add: classHas_def)

lemma classHas_True [simp]: "classHas ic (\<lambda>c. True) ch"
  by (simp add: classHas_def)

lemma captured_state [simp]:
  "captured \<lparr>prev = p, rest = u @ w, caps = cs\<rparr> \<lparr>prev = q, rest = w, caps = cs'\<rparr> = u"
  by (simp add: captured_def)

lemma body_group:
  assumes nf: "firstIndex lit (body @ lit) = Some (length body)" and ne: "lit \<noteq> []"
  shows "matcherOf flagsNone (Seq (Group 2 (lazyStar anyChar)) (Seq (str lit) Empty))
           \<lparr>prev = q, rest = body @ lit @ tail, caps = cs\<rparr> Some =
         Some \<lparr>prev = Some (last lit), rest = tail, caps = cs(2 := Some body)\<rparr>"
proof -
  let ?x = "\<lparr>prev = q, rest = body @ lit @ tail, caps = cs\<rparr>"
  let ?c = "\<lambda>y. matcherOf flagsNone (Seq (str lit) Empty)
                  (y\<lparr>caps := (caps y)(2 := Some (captured ?x y))\<rparr>) Some"
  let ?P = "classHas False (\<lambda>c. isSpace c \<or> \<not> isSpace c)"
  have fail: "\<And>k q'. k < length body \<Longrightarrow>
      ?c \<lparr>prev = q', rest = drop k body @ (lit @ tail), caps = cs\<rparr> = None"
    using firstIndex_before[OF nf] ne by (simp add: close_literal)
  have hit: "?c \<lparr>prev = (if body = [] then q else Some (last body)), rest = lit @ tail, caps = cs\<rparr> =
      Some \<lparr>prev = Some (last lit), rest = tail, caps = cs(2 := Some body)\<rparr>"
    using captured_state[of q body "lit @ tail" cs] ne by (simp add: close_literal)
  have "matcherOf flagsNone (Seq (Group 2 (lazyStar anyChar)) (Seq (str lit) Empty)) ?x Some =
      repChars ?P False 0 q (body @ (lit @ tail)) cs ?c"
    by (simp add: lazyStar_def anyChar_def repeat_chars del: repeatMatcher.simps)
  also have "\<dots> = repChars ?P False 0 (if body = [] then q else Some (last body)) (lit @ tail) cs ?c"
    by (rule lazy_repChars) (use fail in simp_all)
  also have "\<dots> = Some \<lparr>prev = Some (last lit), rest = tail, caps = cs(2 := Some body)\<rparr>"
    using hit by (rule repChars_lazy_hit)
  finally show ?thesis .
qed

subsection \<open>One block\<close>

lemma opt_unfold:
  "rest x \<noteq> [] \<Longrightarrow>
   matcherOf fl (opt r) x c =
     (case matcherOf fl r (clearCaps (groupsOf r) x)
             (\<lambda>y. if length (rest y) = length (rest x) then None else c y) of
        Some z \<Rightarrow> Some z
      | None \<Rightarrow> c x)"
  by (cases "rest x") (simp_all add: opt_def Let_def cong: if_cong)

lemma greedy_run:
  "list_all P u \<Longrightarrow> \<not> P b \<Longrightarrow> mn \<le> length u \<Longrightarrow>
   d \<lparr>prev = (if u = [] then p else Some (last u)), rest = b # s, caps = cs\<rparr> = Some z \<Longrightarrow>
     repChars P True mn p (u @ b # s) cs d = Some z"
proof (induction u arbitrary: p mn)
  case Nil
  then show ?case by simp
next
  case (Cons a u)
  have pa: "P a" and pu: "list_all P u" using Cons.prems(1) by simp_all
  have d: "d \<lparr>prev = (if u = [] then Some a else Some (last u)), rest = b # s, caps = cs\<rparr> = Some z"
    using Cons.prems(4) by (cases "u = []") simp_all
  have "repChars P True (mn - 1) (Some a) (u @ b # s) cs d = Some z"
    by (rule Cons.IH[OF pu Cons.prems(2) _ d]) (use Cons.prems(3) in simp)
  then show ?case using pa by (cases "mn = 0") simp_all
qed

lemma not_word_newline: "\<not> isWordChar (CHR 0x0A)"
  by (simp add: isWordChar_def)

lemma classHas_plain [simp]: "classHas False P = P"
  by (rule ext) (simp add: classHas_def)

lemma opt_lang:
  assumes w: "list_all isWordChar lang" and ne: "lang \<noteq> []"
    and t: "matcherOf flagsNone T
              \<lparr>prev = Some (last lang), rest = CHR 0x0A # s, caps = (\<lambda>k. None)(1 := Some lang)\<rparr> Some
            = Some z"
  shows "matcherOf flagsNone (Seq (opt (Group 1 (plus1 word))) T)
           \<lparr>prev = p, rest = lang @ CHR 0x0A # s, caps = (\<lambda>k. None)\<rparr> Some = Some z"
proof -
  let ?x = "\<lparr>prev = p, rest = lang @ CHR 0x0A # s, caps = (\<lambda>k. None)\<rparr>"
  let ?c = "\<lambda>y. matcherOf flagsNone T y Some"
  let ?d = "\<lambda>y. if length (rest y) = length (rest ?x) then None else ?c y"
  let ?d' = "\<lambda>y. ?d (y\<lparr>caps := (caps y)(1 := Some (captured ?x y))\<rparr>)"
  have cl: "clearCaps (groupsOf (Group 1 (plus1 word))) ?x = ?x"
    by (simp add: clearCaps_def plus1_def word_def cong: if_cong)
  have d: "?d' \<lparr>prev = (if lang = [] then p else Some (last lang)), rest = CHR 0x0A # s,
               caps = (\<lambda>k. None)\<rparr> = Some z"
    using ne t captured_state[of p lang "CHR 0x0A # s" "\<lambda>k. None"] by simp
  have "matcherOf flagsNone (Group 1 (plus1 word)) ?x ?d =
      repChars isWordChar True 1 p (lang @ CHR 0x0A # s) (\<lambda>k. None) ?d'"
    by (simp add: plus1_def word_def repeat_chars del: repeatMatcher.simps cong: if_cong)
  also have "\<dots> = Some z"
  proof (rule greedy_run[where d = ?d'])
    show "list_all isWordChar lang" by (rule w)
    show "\<not> isWordChar CHR 0x0A" by (rule not_word_newline)
    show "1 \<le> length lang" using ne by (cases lang) simp_all
    show "?d' \<lparr>prev = (if lang = [] then p else Some (last lang)), rest = CHR 0x0A # s,
               caps = (\<lambda>k. None)\<rparr> = Some z" by (rule d)
  qed
  finally have g: "matcherOf flagsNone (Group 1 (plus1 word)) ?x ?d = Some z" .
  have "matcherOf flagsNone (opt (Group 1 (plus1 word))) ?x ?c =
      (case matcherOf flagsNone (Group 1 (plus1 word))
              (clearCaps (groupsOf (Group 1 (plus1 word))) ?x) ?d of
         Some z \<Rightarrow> Some z | None \<Rightarrow> ?c ?x)"
    by (rule opt_unfold) (use ne in simp)
  also have "\<dots> = Some z" by (simp only: cl g option.case)
  finally show ?thesis by simp
qed

lemma opt_nolang:
  "matcherOf flagsNone (Seq (opt (Group 1 (plus1 word))) T)
     \<lparr>prev = p, rest = CHR 0x0A # s, caps = (\<lambda>k. None)\<rparr> Some =
   matcherOf flagsNone T \<lparr>prev = p, rest = CHR 0x0A # s, caps = (\<lambda>k. None)\<rparr> Some"
proof -
  let ?x = "\<lparr>prev = p, rest = CHR 0x0A # s, caps = (\<lambda>k. None)\<rparr>"
  let ?c = "\<lambda>y. matcherOf flagsNone T y Some"
  let ?d = "\<lambda>y. if length (rest y) = length (rest ?x) then None else ?c y"
  have cl: "clearCaps (groupsOf (Group 1 (plus1 word))) ?x = ?x"
    by (simp add: clearCaps_def plus1_def word_def cong: if_cong)
  have g: "matcherOf flagsNone (Group 1 (plus1 word)) ?x ?d = None"
    by (simp add: plus1_def word_def repeat_chars not_word_newline del: repeatMatcher.simps)
  have "matcherOf flagsNone (opt (Group 1 (plus1 word))) ?x ?c =
      (case matcherOf flagsNone (Group 1 (plus1 word))
              (clearCaps (groupsOf (Group 1 (plus1 word))) ?x) ?d of
         Some z \<Rightarrow> Some z | None \<Rightarrow> ?c ?x)"
    by (rule opt_unfold) simp
  also have "\<dots> = ?c ?x" by (simp only: cl g option.case)
  finally show ?thesis by simp
qed

lemma newline_step:
  "matcherOf flagsNone (Seq newline R) \<lparr>prev = q, rest = CHR 0x0A # s, caps = cs\<rparr> c =
   matcherOf flagsNone R \<lparr>prev = Some (CHR 0x0A), rest = s, caps = cs\<rparr> c"
  by (simp add: newline_def chrEq_def)

lemma block_match:
  assumes w: "list_all isWordChar lang"
    and nf: "firstIndex lit (body @ lit) = Some (length body)" and ne: "lit \<noteq> []"
  shows "\<exists>y. matcherOf flagsNone
           (Seq (str lit) (Seq (opt (Group 1 (plus1 word)))
              (Seq newline (Seq (Group 2 (lazyStar anyChar)) (Seq (str lit) Empty)))))
           \<lparr>prev = p, rest = lit @ lang @ CHR 0x0A # body @ lit @ tail, caps = (\<lambda>k. None)\<rparr> Some
         = Some y \<and> prev y = Some (last lit) \<and> rest y = tail \<and> grp y 1 = lang \<and> grp y 2 = body"
proof -
  let ?T = "Seq newline (Seq (Group 2 (lazyStar anyChar)) (Seq (str lit) Empty))"
  let ?q = "Some (last lit)"
  have open_lit: "\<And>R c. matcherOf flagsNone (Seq (str lit) R)
        \<lparr>prev = p, rest = lit @ lang @ CHR 0x0A # body @ lit @ tail, caps = (\<lambda>k. None)\<rparr> c =
      matcherOf flagsNone R \<lparr>prev = ?q, rest = lang @ CHR 0x0A # body @ lit @ tail, caps = (\<lambda>k. None)\<rparr> c"
    using ne by (simp add: str_prefix skip_def nth_append last_conv_nth)
  have tailm: "\<And>q cs. matcherOf flagsNone ?T \<lparr>prev = q, rest = CHR 0x0A # body @ lit @ tail, caps = cs\<rparr> Some =
      Some \<lparr>prev = Some (last lit), rest = tail, caps = cs(2 := Some body)\<rparr>"
    by (simp only: newline_step body_group[OF nf ne])
  show ?thesis
  proof (cases "lang = []")
    case True
    have "matcherOf flagsNone (Seq (str lit) (Seq (opt (Group 1 (plus1 word))) ?T))
           \<lparr>prev = p, rest = lit @ lang @ CHR 0x0A # body @ lit @ tail, caps = (\<lambda>k. None)\<rparr> Some =
          Some \<lparr>prev = Some (last lit), rest = tail, caps = (\<lambda>k. None)(2 := Some body)\<rparr>"
      unfolding open_lit using True by (simp only: append_Nil opt_nolang tailm)
    then show ?thesis using True by (simp add: grp_def)
  next
    case False
    have "matcherOf flagsNone (Seq (opt (Group 1 (plus1 word))) ?T)
           \<lparr>prev = ?q, rest = lang @ CHR 0x0A # body @ lit @ tail, caps = (\<lambda>k. None)\<rparr> Some =
          Some \<lparr>prev = Some (last lit), rest = tail,
                 caps = ((\<lambda>k. None)(1 := Some lang))(2 := Some body)\<rparr>"
      by (rule opt_lang[OF w False]) (rule tailm)
    then have "matcherOf flagsNone (Seq (str lit) (Seq (opt (Group 1 (plus1 word))) ?T))
           \<lparr>prev = p, rest = lit @ lang @ CHR 0x0A # body @ lit @ tail, caps = (\<lambda>k. None)\<rparr> Some =
          Some \<lparr>prev = Some (last lit), rest = tail,
                 caps = ((\<lambda>k. None)(1 := Some lang))(2 := Some body)\<rparr>"
      unfolding open_lit .
    then show ?thesis by (simp add: grp_def)
  qed
qed

subsection \<open>The scan of a document\<close>

lemma fenceMark_ne: "fenceMark \<noteq> []" and fenceMark_last: "last fenceMark = CHR 0x60"
  by (simp_all add: fenceMark_def)

lemma codeBlockRe_unfold:
  "codeBlockRe = Seq (str fenceMark) (Seq (opt (Group 1 (plus1 word)))
     (Seq newline (Seq (Group 2 (lazyStar anyChar)) (Seq (str fenceMark) Empty))))"
  by (simp add: codeBlockRe_def seqs_def fenceMark_def)

lemma search_hit:
  "matcherOf fl r \<lparr>prev = p, rest = s, caps = (\<lambda>k. None)\<rparr> Some = Some y \<Longrightarrow>
     searchFrom fl r p s = Some (0, y)"
  by (cases s) simp_all

lemma search_skip:
  "firstIndex lit (t @ lit) = Some (length t) \<Longrightarrow>
     searchFrom flagsNone (Seq (str lit) R) p (t @ lit @ w) =
       map_option (\<lambda>(i, y). (length t + i, y))
         (searchFrom flagsNone (Seq (str lit) R) (if t = [] then p else Some (last t)) (lit @ w))"
proof (induction t arbitrary: p)
  case Nil
  then show ?case by (simp add: option.map_ident split_def)
next
  case (Cons a t)
  from Cons.prems have rest: "firstIndex lit (t @ lit) = Some (length t)"
    by (auto split: if_splits)
  have "\<not> prefix lit (drop 0 (a # t) @ lit @ w)"
    by (rule firstIndex_before[OF Cons.prems]) simp
  then have fail: "matcherOf flagsNone (Seq (str lit) R)
      \<lparr>prev = p, rest = a # t @ lit @ w, caps = (\<lambda>k. None)\<rparr> Some = None"
    by (simp add: str_prefix)
  have "searchFrom flagsNone (Seq (str lit) R) p ((a # t) @ lit @ w) =
      map_option (\<lambda>(i, y). (Suc i, y)) (searchFrom flagsNone (Seq (str lit) R) (Some a) (t @ lit @ w))"
    using fail by (simp del: matcherOf.simps)
  also have "\<dots> = map_option (\<lambda>(i, y). (Suc i, y))
      (map_option (\<lambda>(i, y). (length t + i, y))
         (searchFrom flagsNone (Seq (str lit) R) (if t = [] then Some a else Some (last t)) (lit @ w)))"
    by (simp only: Cons.IH[OF rest])
  also have "\<dots> = map_option (\<lambda>(i, y). (length (a # t) + i, y))
         (searchFrom flagsNone (Seq (str lit) R) (if a # t = [] then p else Some (last (a # t))) (lit @ w))"
    by (cases "t = []") (simp_all add: option.map_comp comp_def split_def)
  finally show ?case .
qed

lemma search_none:
  "firstIndex lit s = None \<Longrightarrow> searchFrom flagsNone (Seq (str lit) R) p s = None"
proof (induction s arbitrary: p)
  case Nil
  then have "lit \<noteq> []" by (auto split: if_splits)
  then show ?case by (simp add: str_prefix)
next
  case (Cons a s)
  from Cons.prems have no: "\<not> prefix lit (a # s)" and rest: "firstIndex lit s = None"
    by (auto split: if_splits)
  have "matcherOf flagsNone (Seq (str lit) R)
      \<lparr>prev = p, rest = a # s, caps = (\<lambda>k. None)\<rparr> Some = None"
    using no by (simp add: str_prefix)
  then show ?case using Cons.IH[OF rest] by (simp del: matcherOf.simps)
qed

lemma search_block:
  assumes t: "firstIndex fenceMark (before @ fenceMark) = Some (length before)"
    and w: "list_all isWordChar lang"
    and b: "firstIndex fenceMark (body @ fenceMark) = Some (length body)"
  shows "\<exists>i y. searchFrom flagsNone codeBlockRe p
           (before @ fenceMark @ lang @ CHR 0x0A # body @ fenceMark @ tail) = Some (i, y) \<and>
         prev y = Some CHR 0x60 \<and> rest y = tail \<and> grp y 1 = lang \<and> grp y 2 = body"
proof -
  let ?p = "if before = [] then p else Some (last before)"
  from block_match[OF w b fenceMark_ne, of ?p tail]
  obtain y where m: "matcherOf flagsNone codeBlockRe
           \<lparr>prev = ?p, rest = fenceMark @ lang @ CHR 0x0A # body @ fenceMark @ tail,
              caps = (\<lambda>k. None)\<rparr> Some = Some y"
    and y: "prev y = Some (last fenceMark)" "rest y = tail" "grp y 1 = lang" "grp y 2 = body"
    unfolding codeBlockRe_unfold by blast
  have "searchFrom flagsNone codeBlockRe ?p (fenceMark @ lang @ CHR 0x0A # body @ fenceMark @ tail) =
      Some (0, y)"
    using m by (rule search_hit)
  then have "searchFrom flagsNone codeBlockRe p
           (before @ fenceMark @ lang @ CHR 0x0A # body @ fenceMark @ tail) = Some (length before + 0, y)"
    unfolding codeBlockRe_unfold by (simp only: search_skip[OF t] option.map prod.case)
  then show ?thesis using y fenceMark_last by auto
qed

lemma loop_blocks:
  "list_all fencedBlock blocks \<Longrightarrow> firstIndex fenceMark final = None \<Longrightarrow>
     artifactsLoop p (document blocks final) index arts =
       Some (arts @ blockArtifacts (Suc index) blocks)"
proof (induction blocks arbitrary: p index arts)
  case Nil
  have "searchFrom flagsNone codeBlockRe p final = None"
    unfolding codeBlockRe_unfold using Nil.prems(2) by (rule search_none)
  then show ?case by (subst artifactsLoop.simps) simp
next
  case (Cons b blocks)
  obtain before lang body where bb: "b = (before, lang, body)" by (cases b)
  from Cons.prems(1) have this_block: "fencedBlock (before, lang, body)"
    and others: "list_all fencedBlock blocks"
    by (simp_all add: bb)
  from this_block have fb: "firstIndex fenceMark (before @ fenceMark) = Some (length before)"
    "list_all isWordChar lang" "firstIndex fenceMark (body @ fenceMark) = Some (length body)"
    by (simp_all add: fencedBlock_def)
  from search_block[OF fb, of p "document blocks final"]
  obtain i y where s: "searchFrom flagsNone codeBlockRe p
           (before @ fenceMark @ lang @ CHR 0x0A # body @ fenceMark @ document blocks final) = Some (i, y)"
    and y: "prev y = Some CHR 0x60" "rest y = document blocks final" "grp y 1 = lang" "grp y 2 = body"
    by blast
  have a: "artifactOf (Suc index) y = \<lparr> label = ''Code Snippet '' @ showNat (Suc index) @
        (if lang = [] then [] else '' ('' @ lang @ '')''), content = trim body \<rparr>"
    using y by (simp add: artifactOf_def)
  have "artifactsLoop p (document (b # blocks) final) index arts =
      artifactsLoop (prev y) (rest y) (Suc index) (arts @ [artifactOf (Suc index) y])"
    using s by (subst artifactsLoop.simps) (simp add: bb)
  also have "\<dots> = Some ((arts @ [artifactOf (Suc index) y]) @ blockArtifacts (Suc (Suc index)) blocks)"
    unfolding y(2) by (rule Cons.IH[OF others Cons.prems(2)])
  finally show ?case by (simp add: bb a)
qed

lemma length_blockArtifacts [simp]: "length (blockArtifacts n blocks) = length blocks"
  by (induction blocks arbitrary: n) auto

text \<open>
  On a document of plain fenced blocks the scan is as the specification has it. Let the
  document be made of \<open>N\<close> blocks (a triple backtick, a tag of word characters or none, a
  line feed, a body, a triple backtick), with text free of triple backticks before, between
  and after them. Then it is parsed, and the report's artifacts are \<open>N\<close> in number, in
  document order; the \<open>n\<close>-th is labelled \<open>Code Snippet n\<close>, followed by the language in
  parentheses exactly when the opening fence has a tag, and its content is the trimmed body.
  With no block and no triple backtick in the document the artifacts are empty.
\<close>

lemma artifacts_of_fenced_blocks:
  assumes "list_all fencedBlock blocks" and "firstIndex fenceMark final = None"
  shows "\<exists>rep. parseVulnerabilityReport (document blocks final) src nowIso = Some rep \<and>
           artifacts rep = blockArtifacts 1 blocks \<and> length (artifacts rep) = length blocks"
proof -
  have "artifactsLoop None (document blocks final) 0 [] = Some ([] @ blockArtifacts (Suc 0) blocks)"
    using assms by (rule loop_blocks)
  then show ?thesis by (simp add: parseVulnerabilityReport_def Let_def)
qed

lemma twoBlocks_fenced: "list_all fencedBlock twoBlocks \<and> firstIndex fenceMark ''\<newline>end'' = None"
  by code_simp

lemma twoBlocks_artifacts:
  "blockArtifacts (Suc 0) twoBlocks =
     [\<lparr>label = ''Code Snippet 1 (js)'', content = ''x = 1''\<rparr>,
      \<lparr>label = ''Code Snippet 2'', content = ''plain''\<rparr>]"
  by code_simp

lemma twoBlocks_document:
  "document twoBlocks ''\<newline>end'' =
     ''Intro\<newline>```js\<newline>x = 1\<newline>```\<newline>then `y`\<newline>```\<newline> plain\<newline>```\<newline>end''"
  by (simp add: twoBlocks_def fenceMark_def)

lemma artifacts_of_two_blocks:
  "list_all fencedBlock twoBlocks \<and> firstIndex fenceMark ''\<newline>end'' = None \<and>
   map_option artifacts (parseVulnerabilityReport
       ''Intro\<newline>```js\<newline>x = 1\<newline>```\<newline>then `y`\<newline>```\<newline> plain\<newline>```\<newline>end'' None sampleNow) =
     Some [\<lparr>label = ''Code Snippet 1 (js)'', content = ''x = 1''\<rparr>,
           \<lparr>label = ''Code Snippet 2'', content = ''plain''\<rparr>]"
proof -
  have f: "list_all fencedBlock twoBlocks" and n: "firstIndex fenceMark ''\<newline>end'' = None"
    using twoBlocks_fenced by simp_all
  from artifacts_of_fenced_blocks[OF f n, of None sampleNow]
  obtain rep where "parseVulnerabilityReport (document twoBlocks ''\<newline>end'') None sampleNow = Some rep"
    and "artifacts rep = blockArtifacts 1 twoBlocks" by blast
  then show ?thesis using f n by (simp add: twoBlocks_artifacts twoBlocks_document)
qed

text \<open>
  Claim C5 says that a document with \<open>N\<close> fenced code blocks gives \<open>N\<close> artifacts, one for
  each block, with the block's language in the label and the block's trimmed body as
  content. The pattern of the scan takes a tag of word characters only, directly followed
  by a line feed. The document below has two blocks, tagged \<open>c++\<close> and \<open>js\<close>, and the word
  \<open>more\<close> between them. No match starts at the first opening fence; the first match runs
  from the closing fence of the first block to the opening fence of the second, and after it
  nothing matches. The report has one artifact, and its content is the text between the
  blocks.
\<close>

theorem artifacts_miss_tagged_block:
  "map_option artifacts (parseVulnerabilityReport
       ''```c++\<newline>int x = 1;\<newline>```\<newline>more\<newline>```js\<newline>let y = 2;\<newline>```'' None sampleNow) =
     Some [\<lparr>label = ''Code Snippet 1'', content = ''more''\<rparr>]"
  by code_simp

text \<open>
  With a carriage return before the line feed after the tag, as in a document with Windows
  line ends, the one block of the document gives no artifact.
\<close>

lemma artifacts_miss_crlf_block:
  "map_option artifacts (parseVulnerabilityReport
       (''```js'' @ [CHR 0x0D, CHR 0x0A] @ ''let y = 2;'' @ [CHR 0x0D, CHR 0x0A] @ ''```'') None sampleNow) =
     Some []"
  by code_simp

section \<open>Sanitizing a model's response\<close>

text \<open>
  A span between \<open><think>\<close> and \<open></think>\<close> goes with all it holds, over line ends too; a
  labelled line that carries a colon goes and leaves its line end; a run of four line feeds
  becomes two.
\<close>

lemma sanitize_think_span:
  "sanitizeModelResponse ''Summary<think>step 1\<newline>step 2</think> of the issue'' =
     ''Summary of the issue''"
  by code_simp

lemma sanitize_label_line:
  "sanitizeModelResponse ''Intro\<newline>## Reasoning: blah\<newline>Body'' = ''Intro\<newline>\<newline>Body''"
  by code_simp

lemma sanitize_blank_lines:
  "sanitizeModelResponse ''Intro\<newline>\<newline>\<newline>\<newline>Body'' = ''Intro\<newline>\<newline>Body''"
  by code_simp

text \<open>
  Claim C6 says that the removal of a line labelled \<open>Reasoning\<close>, \<open>Thoughts\<close> or \<open>Analysis\<close>
  is per line: the labelled line goes and nothing else. In the pattern the white space
  after the label is \<open>\s*\<close>, which runs over line ends; so under a heading that holds the
  label alone, the line that follows is removed with it. Here the response has three lines,
  the heading \<open>## Reasoning\<close>, a sentence and \<open>Done\<close>, and the sentence is lost.
\<close>

theorem label_removal_takes_next_line:
  "sanitizeModelResponse ''## Reasoning\<newline>The vault is drained.\<newline>Done'' = ''Done''"
  by code_simp

end
